theory Spec2Isabelle
  imports Main "HOL-Library.Char_ord" "HOL-Library.List_Lexorder" "HOL-Library.AList"
    "HOL-Library.Multiset"
begin

section \<open>Strings and results\<close>

text \<open>
  A JavaScript string is modelled as \<^typ>\<open>string\<close>: the list of its characters, a
  character being one byte of its UTF-8 form, so ASCII text is modelled exactly. A thrown
  exception is a value: a function that can throw returns \<open>error + 'a\<close>, \<open>Inl\<close> the
  exception.
\<close>

datatype error = TypeError | UnwrappedNone

definition is_upper :: "char \<Rightarrow> bool" where
  "is_upper c = (65 \<le> (of_char c :: nat) \<and> (of_char c :: nat) \<le> 90)"

definition is_lower :: "char \<Rightarrow> bool" where
  "is_lower c = (97 \<le> (of_char c :: nat) \<and> (of_char c :: nat) \<le> 122)"

definition is_digit :: "char \<Rightarrow> bool" where
  "is_digit c = (48 \<le> (of_char c :: nat) \<and> (of_char c :: nat) \<le> 57)"

definition is_alpha :: "char \<Rightarrow> bool" where
  "is_alpha c = (is_upper c \<or> is_lower c)"

definition lower_char :: "char \<Rightarrow> char" where
  "lower_char c = (if is_upper c then char_of (of_char c + (32::nat)) else c)"

definition upper_char :: "char \<Rightarrow> char" where
  "upper_char c = (if is_lower c then char_of (of_char c - (32::nat)) else c)"

text \<open>The decimal digits of a number, as \<open>String(n)\<close> writes them.\<close>

function show_nat :: "nat \<Rightarrow> string" where
  "show_nat n =
     (if n < 10 then [''0123456789'' ! n]
      else show_nat (n div 10) @ [''0123456789'' ! (n mod 10)])"
  by pat_completeness auto
termination
  by (relation "measure id") auto

section \<open>NonEmptyString (src/NonEmptyString.ts)\<close>

text \<open>
  \<open>Newtype<NonEmptyStringSymbol, string>\<close>: \<open>pack\<close> is the constructor,
  \<open>unNonEmptyString = unpack\<close> the projection, and \<open>over f\<close> is
  \<open>pack \<circ> f \<circ> unpack\<close>. The type does not enforce the invariant; it is the predicate
  \<open>nonEmpty\<close> (length at least 1).
\<close>

datatype NonEmptyString = pack (unNonEmptyString: string)

definition over :: "(string \<Rightarrow> string) \<Rightarrow> NonEmptyString \<Rightarrow> NonEmptyString" where
  "over f x = pack (f (unNonEmptyString x))"

definition nonEmpty :: "NonEmptyString \<Rightarrow> bool" where
  "nonEmpty x = (1 \<le> length (unNonEmptyString x))"

text \<open>\<open>fromString = flow(O.fromPredicate(not(isEmpty)), O.map(pack))\<close>.\<close>

definition isEmpty :: "string \<Rightarrow> bool" where
  "isEmpty s = (length s = 0)"

definition fromPredicate :: "('a \<Rightarrow> bool) \<Rightarrow> 'a \<Rightarrow> 'a option" where
  "fromPredicate p a = (if p a then Some a else None)"

definition fromString :: "string \<Rightarrow> NonEmptyString option" where
  "fromString s = map_option pack (fromPredicate (\<lambda>a. \<not> isEmpty a) s)"

text \<open>
  Modelled from the spec: the helpers of src/String.ts, src/Option.ts, which are not among
  the source files. \<open>Str.head\<close> and \<open>Str.last\<close> return the first and the last character
  as a one-character string, absent on the empty string ("by definition return a single
  non-empty character"); \<open>Str.prepend\<close>, \<open>Str.append\<close>, \<open>Str.surround\<close> and
  \<open>Str.reverse\<close> are the plain string operations ("prepend and append with the same outer
  value"); \<open>unsafeUnwrap\<close> returns the value of a present option and throws on an absent
  one.
\<close>

definition Str_head :: "string \<Rightarrow> string option" where
  "Str_head s = (case s of [] \<Rightarrow> None | c # _ \<Rightarrow> Some [c])"

definition Str_last :: "string \<Rightarrow> string option" where
  "Str_last s = (if s = [] then None else Some [last s])"

definition Str_prepend :: "string \<Rightarrow> string \<Rightarrow> string" where
  "Str_prepend x y = x @ y"

definition Str_append :: "string \<Rightarrow> string \<Rightarrow> string" where
  "Str_append x y = y @ x"

definition Str_surround :: "string \<Rightarrow> string \<Rightarrow> string" where
  "Str_surround x y = x @ y @ x"

definition Str_reverse :: "string \<Rightarrow> string" where
  "Str_reverse s = rev s"

definition unsafeUnwrap :: "'a option \<Rightarrow> error + 'a" where
  "unsafeUnwrap x = (case x of None \<Rightarrow> Inl UnwrappedNone | Some a \<Rightarrow> Inr a)"

text \<open>
  \<open>head = over(flow(Str.head, unsafeUnwrap))\<close>, and \<open>last\<close> likewise: the unwrap can
  throw, so the two return \<open>error + NonEmptyString\<close>.
\<close>

definition head :: "NonEmptyString \<Rightarrow> error + NonEmptyString" where
  "head x = (case unsafeUnwrap (Str_head (unNonEmptyString x)) of
               Inl e \<Rightarrow> Inl e | Inr s \<Rightarrow> Inr (pack s))"

definition last_nes :: "NonEmptyString \<Rightarrow> error + NonEmptyString" where
  "last_nes x = (case unsafeUnwrap (Str_last (unNonEmptyString x)) of
               Inl e \<Rightarrow> Inl e | Inr s \<Rightarrow> Inr (pack s))"

text \<open>
  \<open>toUpperCase = over(_toUpperCase)\<close>, \<open>toLowerCase = over(_toLowerCase)\<close>: the
  platform's case mapping, modelled on the ASCII letters (every other character is left as
  it is).
\<close>

definition toUpperCase :: "NonEmptyString \<Rightarrow> NonEmptyString" where
  "toUpperCase = over (map upper_char)"

definition toLowerCase :: "NonEmptyString \<Rightarrow> NonEmptyString" where
  "toLowerCase = over (map lower_char)"

definition prepend :: "string \<Rightarrow> NonEmptyString \<Rightarrow> NonEmptyString" where
  "prepend x = over (Str_prepend x)"

definition append_nes :: "string \<Rightarrow> NonEmptyString \<Rightarrow> NonEmptyString" where
  "append_nes x = over (Str_append x)"

definition surround :: "string \<Rightarrow> NonEmptyString \<Rightarrow> NonEmptyString" where
  "surround x = over (Str_surround x)"

definition reverse :: "NonEmptyString \<Rightarrow> NonEmptyString" where
  "reverse = over Str_reverse"

text \<open>\<open>Semigroup = getSemigroup(_Semigroup)\<close>: string concatenation under the newtype.\<close>

definition Semigroup_concat :: "NonEmptyString \<Rightarrow> NonEmptyString \<Rightarrow> NonEmptyString" where
  "Semigroup_concat x y = pack (unNonEmptyString x @ unNonEmptyString y)"

text \<open>
  \<open>Show = { show: flow(unNonEmptyString, _Show.show) }\<close>, where \<open>_Show\<close> is the
  \<open>Show\<close> instance of fp-ts/string: \<open>show: (s) => JSON.stringify(s)\<close>. On a string,
  \<open>JSON.stringify\<close> writes a double quote, the characters with the double quote, the
  backslash and the control characters escaped, and a double quote. (It also escapes a lone
  surrogate, which has no UTF-8 form and so is not a value of \<^typ>\<open>string\<close>.)
\<close>

definition hex_lower :: "nat \<Rightarrow> char" where
  "hex_lower n = ''0123456789abcdef'' ! n"

definition json_escape :: "char \<Rightarrow> string" where
  "json_escape c =
     (if c = CHR 0x22 then [CHR 0x5C, CHR 0x22]
      else if c = CHR 0x5C then [CHR 0x5C, CHR 0x5C]
      else if c = CHR 0x08 then [CHR 0x5C, CHR ''b'']
      else if c = CHR 0x0C then [CHR 0x5C, CHR ''f'']
      else if c = CHR 0x0A then [CHR 0x5C, CHR ''n'']
      else if c = CHR 0x0D then [CHR 0x5C, CHR ''r'']
      else if c = CHR 0x09 then [CHR 0x5C, CHR ''t'']
      else if (of_char c :: nat) < 32
        then [CHR 0x5C, CHR ''u'', CHR ''0'', CHR ''0'',
              hex_lower ((of_char c :: nat) div 16), hex_lower ((of_char c :: nat) mod 16)]
      else [c])"

definition JSON_stringify :: "string \<Rightarrow> string" where
  "JSON_stringify s = CHR 0x22 # concat (map json_escape s) @ [CHR 0x22]"

definition Show_show :: "NonEmptyString \<Rightarrow> string" where
  "Show_show x = JSON_stringify (unNonEmptyString x)"

section \<open>URLSearchParams (src/URLSearchParams.ts)\<close>

text \<open>
  The platform's \<open>URLSearchParams\<close> is its list of name-value pairs, in order and with
  duplicates. \<open>get(k)\<close> is the value of the first pair named \<open>k\<close> (\<open>null\<close>, here
  \<open>None\<close>, when there is none) and \<open>getAll(k)\<close> the values of all pairs named \<open>k\<close>, in
  order. \<open>toTuples\<close> reads \<open>entries()\<close>, the list itself.
\<close>

type_synonym URLSearchParams = "(string \<times> string) list"

definition get_first :: "string \<Rightarrow> URLSearchParams \<Rightarrow> string option" where
  "get_first k ps = map_option snd (find (\<lambda>p. fst p = k) ps)"

definition getAll :: "string \<Rightarrow> URLSearchParams \<Rightarrow> string list" where
  "getAll k ps = map snd (filter (\<lambda>p. fst p = k) ps)"

definition toTuples :: "URLSearchParams \<Rightarrow> (string \<times> string) list" where
  "toTuples x = x"

text \<open>
  \<open>fromString = constructor\<close>: \<open>new URLSearchParams(s)\<close> drops one leading \<open>?\<close> and
  runs the application/x-www-form-urlencoded parser: split at \<open>&\<close>, skip the empty
  pieces, split each piece at its first \<open>=\<close>, turn \<open>+\<close> into a space and
  percent-decode name and value. The platform then decodes the bytes as UTF-8, an
  ill-formed sequence becoming U+FFFD; the model keeps the bytes, so it is exact where the
  decoded bytes are well-formed UTF-8.
\<close>

primrec splitBy :: "(char \<Rightarrow> bool) \<Rightarrow> string \<Rightarrow> string list" where
  "splitBy P [] = [[]]"
| "splitBy P (c # cs) =
     (let r = splitBy P cs in if P c then [] # r else (c # hd r) # tl r)"

definition hex_val :: "char \<Rightarrow> nat option" where
  "hex_val c =
     (if is_digit c then Some (of_char c - 48)
      else if 65 \<le> (of_char c :: nat) \<and> (of_char c :: nat) \<le> 70 then Some (of_char c - 55)
      else if 97 \<le> (of_char c :: nat) \<and> (of_char c :: nat) \<le> 102 then Some (of_char c - 87)
      else None)"

fun percent_decode :: "string \<Rightarrow> string" where
  "percent_decode (c # h # l # cs) =
     (if c = CHR ''%'' then
        (case (hex_val h, hex_val l) of
           (Some a, Some b) \<Rightarrow> char_of (16 * a + b) # percent_decode cs
         | _ \<Rightarrow> c # percent_decode (h # l # cs))
      else c # percent_decode (h # l # cs))"
| "percent_decode cs = cs"

definition plus_to_space :: "string \<Rightarrow> string" where
  "plus_to_space = map (\<lambda>c. if c = CHR ''+'' then CHR '' '' else c)"

definition parse_pair :: "string \<Rightarrow> string \<times> string" where
  "parse_pair bytes =
     (percent_decode (plus_to_space (takeWhile (\<lambda>c. c \<noteq> CHR ''='') bytes)),
      percent_decode (plus_to_space (drop 1 (dropWhile (\<lambda>c. c \<noteq> CHR ''='') bytes))))"

definition urlencoded_parse :: "string \<Rightarrow> URLSearchParams" where
  "urlencoded_parse s =
     map parse_pair (filter (\<lambda>b. b \<noteq> []) (splitBy (\<lambda>c. c = CHR ''&'') s))"

definition Params_fromString :: "string \<Rightarrow> URLSearchParams" where
  "Params_fromString s =
     urlencoded_parse (case s of [] \<Rightarrow> [] | c # cs \<Rightarrow> if c = CHR ''?'' then cs else s)"

text \<open>
  \<open>lookupFirst k = flow(invoke("get")([k]), O.fromNullable)\<close> and
  \<open>lookup k = flow(invoke("getAll")([k]), NEA.fromArray)\<close>.
\<close>

definition NEA_fromArray :: "'a list \<Rightarrow> 'a list option" where
  "NEA_fromArray as = (if as = [] then None else Some as)"

definition lookupFirst :: "string \<Rightarrow> URLSearchParams \<Rightarrow> string option" where
  "lookupFirst k ps = get_first k ps"

definition lookup :: "string \<Rightarrow> URLSearchParams \<Rightarrow> string list option" where
  "lookup k ps = NEA_fromArray (getAll k ps)"

text \<open>
  A \<open>Record<string, A>\<close> is a plain object: its own keys with their values (the keys
  distinct) and its prototype, \<open>None\<close> for \<open>Object.prototype\<close>.
  \<open>R.fromFoldableMap(M, F)(ta, f)\<close> folds \<open>ta\<close> from the left into \<open>{}\<close>:
  \<open>r[k] = has.call(r, k) ? M.concat(r[k], b) : b\<close> for \<open>[k, b] = f(a)\<close>, where \<open>has\<close>
  is \<open>hasOwnProperty\<close>. The assignment creates or replaces the own key \<open>k\<close>, but for the
  one key \<open>__proto__\<close>: there it runs the setter inherited from \<open>Object.prototype\<close>,
  which makes the value (here an array, an object) the prototype of \<open>r\<close> and creates no
  own key, so \<open>has.call(r, "__proto__")\<close> stays false.
  \<open>toRecord x = R.fromFoldableMap(NEA.getSemigroup(), A.Foldable)(toTuples(x),
  mapSnd(NEA.of))\<close>.
\<close>

record 'a Record =
  own :: "(string \<times> 'a) list"
  proto :: "'a option"

definition fromFoldableMap ::
  "('b \<Rightarrow> 'b \<Rightarrow> 'b) \<Rightarrow> 'a list \<Rightarrow> ('a \<Rightarrow> string \<times> 'b) \<Rightarrow> 'b Record" where
  "fromFoldableMap M ta f =
     foldl (\<lambda>r a. case f a of (k, b) \<Rightarrow>
              if k = ''__proto__'' then r\<lparr>proto := Some b\<rparr>
              else r\<lparr>own := AList.update k
                     (case map_of (own r) k of Some old \<Rightarrow> M old b | None \<Rightarrow> b) (own r)\<rparr>)
       \<lparr>own = [], proto = None\<rparr> ta"

definition NEA_of :: "'a \<Rightarrow> 'a list" where
  "NEA_of a = [a]"

definition mapSnd :: "('b \<Rightarrow> 'c) \<Rightarrow> 'a \<times> 'b \<Rightarrow> 'a \<times> 'c" where
  "mapSnd f p = (fst p, f (snd p))"

definition toRecord :: "URLSearchParams \<Rightarrow> string list Record" where
  "toRecord x = fromFoldableMap (@) (toTuples x) (mapSnd NEA_of)"

text \<open>
  \<open>Eq = Eq_.contramap(toRecord)(R.getEq(getDisorderedEq(Str.Ord)))\<close>.

  Modelled from the spec: \<open>getDisorderedEq\<close> of src/Array.ts, which is not among the
  source files. The spec leaves open how the values of one key are compared ("confirm
  against the reference behavior"); the doc comment of \<open>Eq\<close> in src/URLSearchParams.ts
  settles it: "equivalence is determined without respect to order", with
  \<open>Eq.equals(f('a=1&b=2&a=3'), f('b=2&a=3&a=1'))\<close> true. So \<open>getDisorderedEq(ord)\<close>
  compares two arrays after sorting both by \<open>ord\<close>.
\<close>

definition getDisorderedEq :: "string list \<Rightarrow> string list \<Rightarrow> bool" where
  "getDisorderedEq xs ys = (sort xs = sort ys)"

text \<open>
  \<open>isSubrecord(E)(me, that)\<close> is the loop
  \<open>for (const k in me) if (!has.call(that, k) || !E.equals(me[k], that[k])) return false\<close>,
  then \<open>true\<close>. \<open>for in\<close> walks the own keys of \<open>me\<close> and then the enumerable keys it
  inherits and does not shadow: when the prototype of \<open>me\<close> is an array, its indices. At
  an own key both values are arrays. At an inherited index \<open>me[k]\<close> is an element of the
  prototype array, a string, and \<open>E.equals\<close> is applied to a string and an array, outside
  its type; what \<open>getDisorderedEq\<close> does there (it may throw) is the parameter \<open>mixed\<close>,
  about which the model assumes nothing.
\<close>

fun inherited_subrecord ::
  "(string \<Rightarrow> string list \<Rightarrow> error + bool) \<Rightarrow> string list Record \<Rightarrow> string list Record \<Rightarrow>
   (nat \<times> string) list \<Rightarrow> error + bool" where
  "inherited_subrecord mixed me that [] = Inr True"
| "inherited_subrecord mixed me that ((i, v) # rest) =
     (if map_of (own me) (show_nat i) \<noteq> None then inherited_subrecord mixed me that rest
      else (case map_of (own that) (show_nat i) of
              None \<Rightarrow> Inr False
            | Some b \<Rightarrow>
                (case mixed v b of
                   Inl e \<Rightarrow> Inl e
                 | Inr ok \<Rightarrow> if ok then inherited_subrecord mixed me that rest else Inr False)))"

definition isSubrecord ::
  "(string list \<Rightarrow> string list \<Rightarrow> bool) \<Rightarrow> (string \<Rightarrow> string list \<Rightarrow> error + bool) \<Rightarrow>
   string list Record \<Rightarrow> string list Record \<Rightarrow> error + bool" where
  "isSubrecord E mixed me that =
     (if list_all (\<lambda>(k, a). case map_of (own that) k of None \<Rightarrow> False | Some b \<Rightarrow> E a b) (own me)
      then inherited_subrecord mixed me that
             (case proto me of None \<Rightarrow> [] | Some arr \<Rightarrow> enumerate 0 arr)
      else Inr False)"

text \<open>
  \<open>R.getEq(E)\<close> is \<open>fromEquals((x, y) => isSubrecordE(x)(y) && isSubrecordE(y)(x))\<close>,
  where the curried \<open>isSubrecordE(x)(y)\<close> is \<open>isSubrecord(E)(y, x)\<close>. \<open>fromEquals\<close> and
  \<open>contramap\<close> first test \<open>x === y\<close>; the model compares two distinct objects.
\<close>

definition Record_getEq ::
  "(string list \<Rightarrow> string list \<Rightarrow> bool) \<Rightarrow> (string \<Rightarrow> string list \<Rightarrow> error + bool) \<Rightarrow>
   string list Record \<Rightarrow> string list Record \<Rightarrow> error + bool" where
  "Record_getEq E mixed x y =
     (case isSubrecord E mixed y x of
        Inl e \<Rightarrow> Inl e
      | Inr ok \<Rightarrow> if ok then isSubrecord E mixed x y else Inr False)"

definition Params_Eq ::
  "(string \<Rightarrow> string list \<Rightarrow> error + bool) \<Rightarrow> URLSearchParams \<Rightarrow> URLSearchParams \<Rightarrow> error + bool" where
  "Params_Eq mixed x y = Record_getEq getDisorderedEq mixed (toRecord x) (toRecord y)"

section \<open>The platform's URL\<close>

text \<open>
  \<open>URL\<close> and its parser are the platform's (the URL Standard); the repository's code
  calls the constructor \<open>new URL(s)\<close>, the getters \<open>href\<close>, \<open>origin\<close>,
  \<open>pathname\<close>, \<open>search\<close>, \<open>searchParams\<close>, \<open>hash\<close> and the setters
  \<open>pathname\<close>, \<open>search\<close>, \<open>hash\<close>. A URL is the record of the Standard: the host is
  kept in its serialized form (\<open>None\<close> is the null host), the path is an opaque string or
  a list of segments.
\<close>

datatype url_path = Opaque string | Segments "string list"

record url =
  scheme :: string
  username :: string
  password :: string
  host :: "string option"
  port :: "nat option"
  path :: url_path
  query :: "string option"
  fragment :: "string option"

subsection \<open>Percent-encode sets and percent-encoding\<close>

definition c0_control_set :: "char \<Rightarrow> bool" where
  "c0_control_set c = ((of_char c :: nat) \<le> 31 \<or> 127 \<le> (of_char c :: nat))"

definition fragment_set :: "char \<Rightarrow> bool" where
  "fragment_set c = (c0_control_set c \<or> c \<in> set [CHR '' '', CHR 0x22, CHR ''<'', CHR ''>'', CHR 0x60])"

definition query_set :: "char \<Rightarrow> bool" where
  "query_set c = (c0_control_set c \<or> c \<in> set [CHR '' '', CHR 0x22, CHR ''#'', CHR ''<'', CHR ''>''])"

definition special_query_set :: "char \<Rightarrow> bool" where
  "special_query_set c = (query_set c \<or> c = CHR 0x27)"

definition path_set :: "char \<Rightarrow> bool" where
  "path_set c = (query_set c \<or> c \<in> set [CHR ''?'', CHR ''^'', CHR 0x60, CHR ''{'', CHR ''}''])"

definition userinfo_set :: "char \<Rightarrow> bool" where
  "userinfo_set c =
     (path_set c \<or> c \<in> set [CHR ''/'', CHR '':'', CHR '';'', CHR ''='', CHR ''@'', CHR ''['',
                              CHR 0x5C, CHR '']'', CHR ''|''])"

definition component_set :: "char \<Rightarrow> bool" where
  "component_set c =
     (userinfo_set c \<or> c \<in> set [CHR ''$'', CHR ''%'', CHR ''&'', CHR ''+'', CHR 0x2C])"

definition urlencoded_set :: "char \<Rightarrow> bool" where
  "urlencoded_set c =
     (component_set c \<or> c \<in> set [CHR ''!'', CHR 0x27, CHR ''('', CHR '')'', CHR ''~''])"

definition hex_upper :: "nat \<Rightarrow> char" where
  "hex_upper n = ''0123456789ABCDEF'' ! n"

definition percent_encode_char :: "(char \<Rightarrow> bool) \<Rightarrow> char \<Rightarrow> string" where
  "percent_encode_char in_set c =
     (if in_set c
      then [CHR ''%'', hex_upper ((of_char c :: nat) div 16), hex_upper ((of_char c :: nat) mod 16)]
      else [c])"

definition percent_encode :: "(char \<Rightarrow> bool) \<Rightarrow> string \<Rightarrow> string" where
  "percent_encode in_set s = concat (map (percent_encode_char in_set) s)"

subsection \<open>Schemes\<close>

definition is_special :: "string \<Rightarrow> bool" where
  "is_special sch = (sch \<in> set [''ftp'', ''file'', ''http'', ''https'', ''ws'', ''wss''])"

definition default_port :: "string \<Rightarrow> nat option" where
  "default_port sch =
     (if sch = ''ftp'' then Some 21
      else if sch = ''http'' \<or> sch = ''ws'' then Some 80
      else if sch = ''https'' \<or> sch = ''wss'' then Some 443
      else None)"

definition scheme_char :: "char \<Rightarrow> bool" where
  "scheme_char c = (is_alpha c \<or> is_digit c \<or> c \<in> set [CHR ''+'', CHR ''-'', CHR ''.''])"

text \<open>
  Scheme start state and scheme state, with no base URL: a letter, then letters, digits,
  \<open>+\<close>, \<open>-\<close> and \<open>.\<close> up to a colon; anything else is a failure. The result is the
  lower-cased scheme and what follows the colon.
\<close>

definition split_scheme :: "string \<Rightarrow> (string \<times> string) option" where
  "split_scheme s =
     (case s of
        [] \<Rightarrow> None
      | c # _ \<Rightarrow>
          if \<not> is_alpha c then None
          else (case dropWhile scheme_char s of
                  [] \<Rightarrow> None
                | d # rest \<Rightarrow>
                    if d = CHR '':'' then Some (map lower_char (takeWhile scheme_char s), rest)
                    else None))"

subsection \<open>Path, query and fragment states\<close>

definition single_dot :: "string \<Rightarrow> bool" where
  "single_dot seg = (map lower_char seg \<in> set [''.'', ''%2e''])"

definition double_dot :: "string \<Rightarrow> bool" where
  "double_dot seg = (map lower_char seg \<in> set [''..'', ''.%2e'', ''%2e.'', ''%2e%2e''])"

definition windows_drive_letter :: "string \<Rightarrow> bool" where
  "windows_drive_letter seg =
     (case seg of [a, b] \<Rightarrow> is_alpha a \<and> (b = CHR '':'' \<or> b = CHR ''|'') | _ \<Rightarrow> False)"

definition normalized_drive_letter :: "string \<Rightarrow> bool" where
  "normalized_drive_letter seg =
     (case seg of [a, b] \<Rightarrow> is_alpha a \<and> b = CHR '':'' | _ \<Rightarrow> False)"

definition shorten :: "string \<Rightarrow> string list \<Rightarrow> string list" where
  "shorten sch p =
     (if sch = ''file'' \<and> length p = 1 \<and> normalized_drive_letter (hd p) then p else butlast p)"

definition push_segment :: "string \<Rightarrow> string list \<Rightarrow> string \<Rightarrow> string list" where
  "push_segment sch p seg =
     (if sch = ''file'' \<and> p = [] \<and> windows_drive_letter seg then p @ [[hd seg, CHR '':'']]
      else p @ [seg])"

text \<open>
  The path state over the percent-encoded buffers between the separators: every buffer but
  the last ends at a separator, the last at the end of the path.
\<close>

fun path_state :: "string \<Rightarrow> string list \<Rightarrow> string list \<Rightarrow> string list" where
  "path_state sch p [] = p"
| "path_state sch p [seg] =
     (if double_dot seg then shorten sch p @ [[]]
      else if single_dot seg then p @ [[]]
      else push_segment sch p seg)"
| "path_state sch p (seg # rest) =
     path_state sch
       (if double_dot seg then shorten sch p
        else if single_dot seg then p
        else push_segment sch p seg) rest"

definition is_path_sep :: "string \<Rightarrow> char \<Rightarrow> bool" where
  "is_path_sep sch c = (c = CHR ''/'' \<or> (is_special sch \<and> c = CHR 0x5C))"

definition parse_path :: "string \<Rightarrow> string \<Rightarrow> string list" where
  "parse_path sch s =
     path_state sch [] (map (percent_encode path_set) (splitBy (is_path_sep sch) s))"

definition query_encode :: "string \<Rightarrow> string \<Rightarrow> string" where
  "query_encode sch q =
     percent_encode (if is_special sch then special_query_set else query_set) q"

definition not_hash :: "char \<Rightarrow> bool" where
  "not_hash c = (c \<noteq> CHR ''#'')"

definition not_query_hash :: "char \<Rightarrow> bool" where
  "not_query_hash c = (c \<noteq> CHR ''?'' \<and> c \<noteq> CHR ''#'')"

text \<open>
  The input from the end of the path on: empty, or a \<open>?\<close> with the query up to a
  \<open>#\<close>, or a \<open>#\<close> with the fragment.
\<close>

definition parse_query_fragment :: "url \<Rightarrow> string \<Rightarrow> url" where
  "parse_query_fragment u s =
     (case s of
        [] \<Rightarrow> u
      | c # r \<Rightarrow>
          if c = CHR ''?'' then
            (case dropWhile not_hash r of
               [] \<Rightarrow> u\<lparr>query := Some (query_encode (scheme u) r)\<rparr>
             | _ # f \<Rightarrow> u\<lparr>query := Some (query_encode (scheme u) (takeWhile not_hash r)),
                          fragment := Some (percent_encode fragment_set f)\<rparr>)
          else u\<lparr>fragment := Some (percent_encode fragment_set r)\<rparr>)"

definition from_path_state :: "url \<Rightarrow> string \<Rightarrow> url" where
  "from_path_state u s =
     parse_query_fragment
       (u\<lparr>path := Segments (parse_path (scheme u) (takeWhile not_query_hash s))\<rparr>)
       (dropWhile not_query_hash s)"

definition from_path_start_state :: "url \<Rightarrow> string \<Rightarrow> url" where
  "from_path_start_state u s =
     (if is_special (scheme u) then
        from_path_state u
          (case s of [] \<Rightarrow> [] | c # cs \<Rightarrow> if c = CHR ''/'' \<or> c = CHR 0x5C then cs else s)
      else
        (case s of
           [] \<Rightarrow> u
         | c # cs \<Rightarrow>
             if c = CHR ''?'' \<or> c = CHR ''#'' then parse_query_fragment u s
             else from_path_state u (if c = CHR ''/'' then cs else s)))"

text \<open>
  The opaque path state: the path up to \<open>?\<close> or \<open>#\<close>, percent-encoded with the C0
  control set; a space stays a space, but a space right before the \<open>?\<close> or \<open>#\<close> is
  written \<open>%20\<close>.
\<close>

definition opaque_encode :: "string \<Rightarrow> bool \<Rightarrow> string" where
  "opaque_encode p followed =
     (if p \<noteq> [] \<and> last p = CHR '' '' \<and> followed
      then percent_encode c0_control_set (butlast p) @ ''%20''
      else percent_encode c0_control_set p)"

definition from_opaque_path_state :: "url \<Rightarrow> string \<Rightarrow> url" where
  "from_opaque_path_state u s =
     parse_query_fragment
       (u\<lparr>path := Opaque (opaque_encode (takeWhile not_query_hash s)
                                        (dropWhile not_query_hash s \<noteq> []))\<rparr>)
       (dropWhile not_query_hash s)"

subsection \<open>Hosts and ports\<close>

text \<open>
  The host parser. An opaque host (of a scheme that is not special) and a domain of ASCII
  characters with no \<open>xn--\<close> label that does not end in a number are parsed here: the
  domain is percent-decoded and lower-cased, and refused when empty or when it has a
  forbidden domain code point. The other hosts need the platform's IPv6 and IPv4 parsers
  and its Unicode IDNA tables: they are the parameter \<open>ext\<close>, the platform's host parser
  on such an input, about which the model assumes nothing.
\<close>

type_synonym host_ext = "string \<Rightarrow> string option"

definition forbidden_host :: "char \<Rightarrow> bool" where
  "forbidden_host c =
     (c \<in> set [CHR 0x00, CHR 0x09, CHR 0x0A, CHR 0x0D, CHR '' '', CHR ''#'', CHR ''/'', CHR '':'',
               CHR ''<'', CHR ''>'', CHR ''?'', CHR ''@'', CHR ''['', CHR 0x5C, CHR '']'', CHR ''^'',
               CHR ''|''])"

definition forbidden_domain :: "char \<Rightarrow> bool" where
  "forbidden_domain c =
     (forbidden_host c \<or> (of_char c :: nat) \<le> 31 \<or> c = CHR ''%'' \<or> c = CHR 0x7F)"

definition is_hex_digit :: "char \<Rightarrow> bool" where
  "is_hex_digit c = (hex_val c \<noteq> None)"

definition is_dot :: "char \<Rightarrow> bool" where
  "is_dot c = (c = CHR ''.'')"

definition ends_in_number :: "string \<Rightarrow> bool" where
  "ends_in_number d =
     (let parts = splitBy is_dot d;
          parts' = (if last parts = [] \<and> 1 < length parts then butlast parts else parts);
          l = last parts'
      in l \<noteq> [] \<and>
         (list_all is_digit l \<or>
          ((take 2 l = ''0x'' \<or> take 2 l = ''0X'') \<and> list_all is_hex_digit (drop 2 l))))"

definition plain_ascii_domain :: "string \<Rightarrow> bool" where
  "plain_ascii_domain d =
     (list_all (\<lambda>c. (of_char c :: nat) < 128) d \<and>
      list_all (\<lambda>l. map lower_char (take 4 l) \<noteq> ''xn--'') (splitBy is_dot d))"

definition host_parse :: "host_ext \<Rightarrow> bool \<Rightarrow> string \<Rightarrow> string option" where
  "host_parse ext is_opaque input =
     (if take 1 input = ''['' then ext input
      else if is_opaque then
        (if list_ex forbidden_host input then None
         else Some (percent_encode c0_control_set input))
      else
        (let d = percent_decode input in
         if \<not> plain_ascii_domain d then ext input
         else if d = [] \<or> list_ex forbidden_domain (map lower_char d) then None
         else if ends_in_number (map lower_char d) then ext input
         else Some (map lower_char d)))"

text \<open>
  The host state splits the authority's host and port at the first colon outside square
  brackets; the port state reads digits only.
\<close>

fun split_host_port :: "bool \<Rightarrow> string \<Rightarrow> string \<times> string option" where
  "split_host_port inside [] = ([], None)"
| "split_host_port inside (c # cs) =
     (if c = CHR '':'' \<and> \<not> inside then ([], Some cs)
      else (case split_host_port (if c = CHR ''['' then True
                                  else if c = CHR '']'' then False else inside) cs of
              (h, p) \<Rightarrow> (c # h, p)))"

definition decimal_value :: "string \<Rightarrow> nat" where
  "decimal_value ds = foldl (\<lambda>a c. 10 * a + ((of_char c :: nat) - 48)) 0 ds"

definition parse_port :: "string \<Rightarrow> string \<Rightarrow> nat option option" where
  "parse_port sch ds =
     (if \<not> list_all is_digit ds then None
      else if ds = [] then Some None
      else if 65535 < decimal_value ds then None
      else if default_port sch = Some (decimal_value ds) then Some None
      else Some (Some (decimal_value ds)))"

definition parse_host_port :: "host_ext \<Rightarrow> string \<Rightarrow> string \<Rightarrow> (string \<times> nat option) option" where
  "parse_host_port ext sch hp =
     (case split_host_port False hp of
        (h, None) \<Rightarrow>
          if is_special sch \<and> h = [] then None
          else map_option (\<lambda>a. (a, None)) (host_parse ext (\<not> is_special sch) h)
      | (h, Some ds) \<Rightarrow>
          if h = [] then None
          else (case host_parse ext (\<not> is_special sch) h of
                  None \<Rightarrow> None
                | Some a \<Rightarrow> map_option (\<lambda>p. (a, p)) (parse_port sch ds)))"

subsection \<open>Authority state and the constructor\<close>

definition authority_end :: "string \<Rightarrow> char \<Rightarrow> bool" where
  "authority_end sch c =
     (c = CHR ''/'' \<or> c = CHR ''?'' \<or> c = CHR ''#'' \<or> (is_special sch \<and> c = CHR 0x5C))"

definition not_at :: "char \<Rightarrow> bool" where
  "not_at c = (c \<noteq> CHR ''@'')"

definition not_colon :: "char \<Rightarrow> bool" where
  "not_colon c = (c \<noteq> CHR '':'')"

text \<open>
  The authority runs to the first \<open>/\<close>, \<open>?\<close> or \<open>#\<close> (or backslash, for a special
  scheme). What precedes its last \<open>@\<close> is the credentials, the user name up to the
  first colon; what follows is host and port.
\<close>

definition from_authority_state :: "host_ext \<Rightarrow> string \<Rightarrow> string \<Rightarrow> url option" where
  "from_authority_state ext sch s =
     (let auth = takeWhile (\<lambda>c. \<not> authority_end sch c) s;
          rest = dropWhile (\<lambda>c. \<not> authority_end sch c) s;
          has_at = (CHR ''@'' \<in> set auth);
          hp = rev (takeWhile not_at (rev auth));
          cred = (if has_at then take (length auth - length hp - 1) auth else [])
      in if has_at \<and> hp = [] then None
         else (case parse_host_port ext sch hp of
                 None \<Rightarrow> None
               | Some (h, p) \<Rightarrow>
                   Some (from_path_start_state
                     \<lparr>scheme = sch,
                      username = percent_encode userinfo_set (takeWhile not_colon cred),
                      password = percent_encode userinfo_set (drop 1 (dropWhile not_colon cred)),
                      host = Some h, port = p, path = Segments [], query = None,
                      fragment = None\<rparr> rest)))"

definition is_slash :: "char \<Rightarrow> bool" where
  "is_slash c = (c = CHR ''/'' \<or> c = CHR 0x5C)"

definition file_end :: "char \<Rightarrow> bool" where
  "file_end c = (c = CHR ''/'' \<or> c = CHR 0x5C \<or> c = CHR ''?'' \<or> c = CHR ''#'')"

definition blank_url :: "string \<Rightarrow> string option \<Rightarrow> url" where
  "blank_url sch h =
     \<lparr>scheme = sch, username = [], password = [], host = h, port = None, path = Segments [],
      query = None, fragment = None\<rparr>"

text \<open>File state, file slash state and file host state, with no base URL.\<close>

definition from_file_state :: "host_ext \<Rightarrow> string \<Rightarrow> url option" where
  "from_file_state ext s =
     (case s of
        c # d # r \<Rightarrow>
          if is_slash c \<and> is_slash d then
            (let buf = takeWhile (\<lambda>c. \<not> file_end c) r; rest = dropWhile (\<lambda>c. \<not> file_end c) r
             in if windows_drive_letter buf then Some (from_path_state (blank_url ''file'' (Some [])) r)
                else if buf = [] then Some (from_path_start_state (blank_url ''file'' (Some [])) rest)
                else (case host_parse ext False buf of
                        None \<Rightarrow> None
                      | Some h \<Rightarrow>
                          Some (from_path_start_state
                            (blank_url ''file'' (Some (if h = ''localhost'' then [] else h))) rest)))
          else if is_slash c then Some (from_path_state (blank_url ''file'' (Some [])) (d # r))
          else Some (from_path_state (blank_url ''file'' (Some [])) s)
      | [c] \<Rightarrow>
          if is_slash c then Some (from_path_state (blank_url ''file'' (Some [])) [])
          else Some (from_path_state (blank_url ''file'' (Some [])) s)
      | [] \<Rightarrow> Some (from_path_state (blank_url ''file'' (Some [])) []))"

definition is_c0_or_space :: "char \<Rightarrow> bool" where
  "is_c0_or_space c = ((of_char c :: nat) \<le> 32)"

definition strip_c0_space :: "string \<Rightarrow> string" where
  "strip_c0_space s = rev (dropWhile is_c0_or_space (rev (dropWhile is_c0_or_space s)))"

definition is_tab_newline :: "char \<Rightarrow> bool" where
  "is_tab_newline c = (c = CHR 0x09 \<or> c = CHR 0x0A \<or> c = CHR 0x0D)"

definition remove_tab_newline :: "string \<Rightarrow> string" where
  "remove_tab_newline s = filter (\<lambda>c. \<not> is_tab_newline c) s"

text \<open>
  \<open>new URL(s)\<close>, with no base: \<open>None\<close> is the \<open>TypeError\<close> the constructor throws.
  Leading and trailing C0 controls and spaces are stripped and tabs and newlines removed;
  then the scheme decides: the file states, the authority of a special scheme after any
  number of slashes, and for another scheme an authority after \<open>//\<close>, a path after
  \<open>/\<close> and an opaque path otherwise.
\<close>

definition url_parse :: "host_ext \<Rightarrow> string \<Rightarrow> url option" where
  "url_parse ext input =
     (case split_scheme (remove_tab_newline (strip_c0_space input)) of
        None \<Rightarrow> None
      | Some (sch, rest) \<Rightarrow>
          if sch = ''file'' then from_file_state ext rest
          else if is_special sch then from_authority_state ext sch (dropWhile is_slash rest)
          else (case rest of
                  c # r \<Rightarrow>
                    if c = CHR ''/'' then
                      (case r of
                         d # r' \<Rightarrow>
                           if d = CHR ''/'' then from_authority_state ext sch r'
                           else Some (from_path_state (blank_url sch None) r)
                       | [] \<Rightarrow> Some (from_path_state (blank_url sch None) r))
                    else Some (from_opaque_path_state (blank_url sch None\<lparr>path := Opaque []\<rparr>) rest)
                | [] \<Rightarrow> Some (from_opaque_path_state (blank_url sch None\<lparr>path := Opaque []\<rparr>) rest)))"

subsection \<open>Serializer and getters\<close>

definition serialize_path :: "url_path \<Rightarrow> string" where
  "serialize_path p =
     (case p of Opaque s \<Rightarrow> s | Segments segs \<Rightarrow> concat (map (\<lambda>seg. CHR ''/'' # seg) segs))"

definition href :: "url \<Rightarrow> string" where
  "href u =
     scheme u @ '':'' @
     (case host u of
        Some h \<Rightarrow>
          ''//'' @
          (if username u \<noteq> [] \<or> password u \<noteq> []
           then username u @ (if password u \<noteq> [] then '':'' @ password u else []) @ ''@''
           else []) @
          h @ (case port u of None \<Rightarrow> [] | Some p \<Rightarrow> '':'' @ show_nat p)
      | None \<Rightarrow>
          (case path u of
             Segments (s1 # s2 # _) \<Rightarrow> if s1 = [] then ''/.'' else []
           | _ \<Rightarrow> [])) @
     serialize_path (path u) @
     (case query u of None \<Rightarrow> [] | Some q \<Rightarrow> ''?'' @ q) @
     (case fragment u of None \<Rightarrow> [] | Some f \<Rightarrow> ''#'' @ f)"

text \<open>
  The origin of a URL with one of the schemes \<open>ftp\<close>, \<open>http\<close>, \<open>https\<close>, \<open>ws\<close>,
  \<open>wss\<close> is its scheme, host and port, serialized; another URL has an opaque origin,
  serialized as \<open>null\<close> (the origin of a \<open>blob\<close> URL, that of the URL in its path, is
  not modelled apart).
\<close>

definition origin :: "url \<Rightarrow> string" where
  "origin u =
     (if scheme u \<in> set [''ftp'', ''http'', ''https'', ''ws'', ''wss''] then
        scheme u @ ''://'' @ (case host u of None \<Rightarrow> [] | Some h \<Rightarrow> h) @
        (case port u of None \<Rightarrow> [] | Some p \<Rightarrow> '':'' @ show_nat p)
      else ''null'')"

definition pathname :: "url \<Rightarrow> string" where
  "pathname u = serialize_path (path u)"

definition search :: "url \<Rightarrow> string" where
  "search u = (case query u of None \<Rightarrow> [] | Some q \<Rightarrow> if q = [] then [] else ''?'' @ q)"

definition hash :: "url \<Rightarrow> string" where
  "hash u = (case fragment u of None \<Rightarrow> [] | Some f \<Rightarrow> if f = [] then [] else ''#'' @ f)"

text \<open>
  \<open>searchParams\<close> is the list the platform keeps in step with the query: the parse of the
  query, and empty when the query is null.
\<close>

definition searchParams :: "url \<Rightarrow> URLSearchParams" where
  "searchParams u = (case query u of None \<Rightarrow> [] | Some q \<Rightarrow> urlencoded_parse q)"

subsection \<open>Setters\<close>

text \<open>
  The \<open>pathname\<close> setter does nothing on a URL with an opaque path; otherwise it empties
  the path and runs the parser on the value from the path start state as state override,
  where \<open>?\<close> and \<open>#\<close> are characters of the path. The \<open>search\<close> setter sets the query to
  null on the empty string, and otherwise drops one leading \<open>?\<close> and runs the query state
  as state override (\<open>#\<close> is a character of the query); the \<open>hash\<close> setter likewise with
  \<open>#\<close> and the fragment state. Tabs and newlines are removed from the value.
\<close>

definition set_pathname :: "string \<Rightarrow> url \<Rightarrow> url" where
  "set_pathname v u =
     (case path u of
        Opaque _ \<Rightarrow> u
      | Segments _ \<Rightarrow>
          (let s = remove_tab_newline v in
           if is_special (scheme u) then
             u\<lparr>path := Segments (parse_path (scheme u)
                 (case s of [] \<Rightarrow> [] | c # cs \<Rightarrow> if c = CHR ''/'' \<or> c = CHR 0x5C then cs else s))\<rparr>
           else
             (case s of
                [] \<Rightarrow> u\<lparr>path := Segments (if host u = None then [[]] else [])\<rparr>
              | c # cs \<Rightarrow>
                  u\<lparr>path := Segments (parse_path (scheme u) (if c = CHR ''/'' then cs else s))\<rparr>)))"

definition set_search :: "string \<Rightarrow> url \<Rightarrow> url" where
  "set_search v u =
     (if v = [] then u\<lparr>query := None\<rparr>
      else u\<lparr>query := Some (query_encode (scheme u)
              (remove_tab_newline (case v of [] \<Rightarrow> [] | c # cs \<Rightarrow> if c = CHR ''?'' then cs else v)))\<rparr>)"

definition set_hash :: "string \<Rightarrow> url \<Rightarrow> url" where
  "set_hash v u =
     (if v = [] then u\<lparr>fragment := None\<rparr>
      else u\<lparr>fragment := Some (percent_encode fragment_set
              (remove_tab_newline (case v of [] \<Rightarrow> [] | c # cs \<Rightarrow> if c = CHR ''#'' then cs else v)))\<rparr>)"

text \<open>
  \<open>URLSearchParams.prototype.toString\<close>, the application/x-www-form-urlencoded
  serializer: \<open>name=value\<close> joined by \<open>&\<close>, a space written \<open>+\<close> and every byte but
  letters, digits, \<open>*\<close>, \<open>-\<close>, \<open>.\<close> and \<open>_\<close> percent-encoded.
\<close>

definition urlencoded_char :: "char \<Rightarrow> string" where
  "urlencoded_char c = (if c = CHR '' '' then ''+'' else percent_encode_char urlencoded_set c)"

definition urlencoded_string :: "string \<Rightarrow> string" where
  "urlencoded_string s = concat (map urlencoded_char s)"

fun join_amp :: "string list \<Rightarrow> string" where
  "join_amp [] = []"
| "join_amp [x] = x"
| "join_amp (x # xs) = x @ ''&'' @ join_amp xs"

definition Params_toString :: "URLSearchParams \<Rightarrow> string" where
  "Params_toString ps =
     join_amp (map (\<lambda>(k, v). urlencoded_string k @ ''='' @ urlencoded_string v) ps)"

section \<open>URL helpers (src/URL.ts)\<close>

text \<open>
  Modelled from the spec: src/URL.ts is not among the source files. \<open>URL.parse(f)\<close>
  constructs the URL and turns the constructor's \<open>TypeError\<close> into \<open>f\<close> of it ("on parse
  failure, invokes onError with the underlying error"); the setters return a new value
  (\<open>clone\<close> is a copy, the identity on values) with the platform's setter applied, the
  parameters through their string form; the getters read the platform's getters; \<open>URL.Eq\<close>
  is "string-identity of serialized form".
\<close>

definition clone :: "url \<Rightarrow> url" where
  "clone u = u"

definition URL_parse :: "host_ext \<Rightarrow> (error \<Rightarrow> 'e) \<Rightarrow> string \<Rightarrow> 'e + url" where
  "URL_parse ext f s = (case url_parse ext s of None \<Rightarrow> Inl (f TypeError) | Some u \<Rightarrow> Inr u)"

definition URL_getPathname :: "url \<Rightarrow> string" where
  "URL_getPathname u = pathname u"

definition URL_getParams :: "url \<Rightarrow> URLSearchParams" where
  "URL_getParams u = searchParams u"

definition URL_getHash :: "url \<Rightarrow> string" where
  "URL_getHash u = hash u"

definition URL_setPathname :: "string \<Rightarrow> url \<Rightarrow> url" where
  "URL_setPathname x u = set_pathname x (clone u)"

definition URL_setParams :: "URLSearchParams \<Rightarrow> url \<Rightarrow> url" where
  "URL_setParams x u = set_search (Params_toString x) (clone u)"

definition URL_setHash :: "string \<Rightarrow> url \<Rightarrow> url" where
  "URL_setHash x u = set_hash x (clone u)"

definition URL_Eq :: "url \<Rightarrow> url \<Rightarrow> bool" where
  "URL_Eq x y = (href x = href y)"

section \<open>URLPath (src/URLPath.ts)\<close>

text \<open>
  \<open>URLPath = Newtype<URLPathSymbol, URL>\<close>: a URL; \<open>pack\<close> and \<open>unpack\<close> are the
  identity and \<open>over f = f\<close>. \<open>phonyBase = new URL("https://urlpath.fp-ts-std.samhh.com")\<close>.
\<close>

type_synonym URLPath = url

definition phonyBase :: url where
  "phonyBase =
     \<lparr>scheme = ''https'', username = [], password = [],
      host = Some ''urlpath.fp-ts-std.samhh.com'', port = None, path = Segments [[]],
      query = None, fragment = None\<rparr>"

definition hasPhonyBase :: "url \<Rightarrow> bool" where
  "hasPhonyBase x = (origin x = origin phonyBase)"

text \<open>
  \<open>fromString x = pipe(O.tryCatch(() => new URL(`${phonyBase.origin}${x}`)),
  O.filter(hasPhonyBase), O.getOrElse(() => new URL(`${phonyBase.origin}/${x}`)), pack)\<close>.
  The second constructor call is not in a \<open>tryCatch\<close>: its \<open>TypeError\<close> would be thrown
  by \<open>fromString\<close>.
\<close>

definition URLPath_fromString :: "host_ext \<Rightarrow> string \<Rightarrow> error + URLPath" where
  "URLPath_fromString ext x =
     (case Option.bind (url_parse ext (origin phonyBase @ x))
             (\<lambda>u. if hasPhonyBase u then Some u else None) of
        Some u \<Rightarrow> Inr u
      | None \<Rightarrow>
          (case url_parse ext (origin phonyBase @ ''/'' @ x) of
             None \<Rightarrow> Inl TypeError
           | Some u \<Rightarrow> Inr u))"

definition fromPathname :: "string \<Rightarrow> URLPath" where
  "fromPathname x = set_pathname x (clone phonyBase)"

definition URLPath_toString :: "URLPath \<Rightarrow> string" where
  "URLPath_toString x = pathname x @ search x @ hash x"

definition getPathname :: "URLPath \<Rightarrow> string" where
  "getPathname x = URL_getPathname x"

definition setPathname :: "string \<Rightarrow> URLPath \<Rightarrow> URLPath" where
  "setPathname x = URL_setPathname x"

definition getParams :: "URLPath \<Rightarrow> URLSearchParams" where
  "getParams x = URL_getParams x"

definition getHash :: "URLPath \<Rightarrow> string" where
  "getHash x = URL_getHash x"

definition toURL :: "host_ext \<Rightarrow> (error \<Rightarrow> 'e) \<Rightarrow> string \<Rightarrow> URLPath \<Rightarrow> 'e + url" where
  "toURL ext f baseUrl x =
     (case URL_parse ext f baseUrl of
        Inl e \<Rightarrow> Inl e
      | Inr u \<Rightarrow>
          Inr (URL_setHash (getHash x) (URL_setParams (getParams x)
                 (URL_setPathname (getPathname x) u))))"

definition setParams :: "URLSearchParams \<Rightarrow> URLPath \<Rightarrow> URLPath" where
  "setParams x = URL_setParams x"

definition setHash :: "string \<Rightarrow> URLPath \<Rightarrow> URLPath" where
  "setHash x = URL_setHash x"

text \<open>
  \<open>ensurePhonyBase x\<close> is a clone of \<open>phonyBase\<close> with \<open>b.pathname = x.pathname\<close>,
  \<open>b.search = Params.toString(x.searchParams)\<close> and \<open>b.hash = x.hash\<close>, in this order;
  \<open>fromURL x\<close> applies it to \<open>new URL(x.href, phonyBase)\<close>.
\<close>

definition ensurePhonyBase :: "url \<Rightarrow> url" where
  "ensurePhonyBase x =
     set_hash (hash x) (set_search (Params_toString (searchParams x))
       (set_pathname (pathname x) (clone phonyBase)))"

definition URLPath_Eq :: "URLPath \<Rightarrow> URLPath \<Rightarrow> bool" where
  "URLPath_Eq x y = URL_Eq x y"

text \<open>
  The values of \<open>URLPath\<close>. \<open>isURLPath\<close> recognizes a URL whose origin is that of
  \<open>phonyBase\<close>; a URL of the platform is one its parser and setters build, so its
  components are percent-encoded and its path has no dot segments. \<open>urlpath_invariant\<close>
  says both of a record: the scheme, host and port of \<open>phonyBase\<close>, credentials without
  characters of the userinfo set, a path of at least one segment, each without separators,
  without characters of the path set and not a dot segment, a query without characters of
  the special-query set and a fragment without characters of the fragment set.
\<close>

definition wf_segment :: "string \<Rightarrow> bool" where
  "wf_segment seg =
     (list_all (\<lambda>c. \<not> path_set c \<and> c \<noteq> CHR ''/'' \<and> c \<noteq> CHR 0x5C) seg \<and>
      \<not> single_dot seg \<and> \<not> double_dot seg)"

definition wf_query :: "string \<Rightarrow> bool" where
  "wf_query q = list_all (\<lambda>c. \<not> special_query_set c) q"

definition wf_fragment :: "string \<Rightarrow> bool" where
  "wf_fragment f = list_all (\<lambda>c. \<not> fragment_set c) f"

definition wf_userinfo :: "string \<Rightarrow> bool" where
  "wf_userinfo s = list_all (\<lambda>c. \<not> userinfo_set c) s"

definition urlpath_invariant :: "url \<Rightarrow> bool" where
  "urlpath_invariant x =
     (scheme x = ''https'' \<and> host x = Some ''urlpath.fp-ts-std.samhh.com'' \<and> port x = None \<and>
      wf_userinfo (username x) \<and> wf_userinfo (password x) \<and>
      (case path x of Opaque _ \<Rightarrow> False | Segments segs \<Rightarrow> segs \<noteq> [] \<and> list_all wf_segment segs) \<and>
      (case query x of None \<Rightarrow> True | Some q \<Rightarrow> wf_query q) \<and>
      (case fragment x of None \<Rightarrow> True | Some f \<Rightarrow> wf_fragment f))"

section \<open>Notions used in the proofs\<close>

text \<open>
  What the parser does to the rest of an input after a prefix without leading or trailing
  space, the URL of \<open>phonyBase\<close> as the authority state leaves it, the getters' output
  as functions of the query and the fragment, and the character classes that the writers
  of the query string and of the path keep to.
\<close>

definition strip_trailing :: "string \<Rightarrow> string" where
  "strip_trailing s = rev (dropWhile is_c0_or_space (rev s))"

definition phony_start :: url where
  "phony_start = blank_url ''https'' (Some ''urlpath.fp-ts-std.samhh.com'')"

definition search_of :: "string option \<Rightarrow> string" where
  "search_of q = (case q of None \<Rightarrow> [] | Some a \<Rightarrow> if a = [] then [] else ''?'' @ a)"

definition hash_of :: "string option \<Rightarrow> string" where
  "hash_of f = (case f of None \<Rightarrow> [] | Some a \<Rightarrow> if a = [] then [] else ''#'' @ a)"

definition ue_char :: "char \<Rightarrow> bool" where
  "ue_char c = (\<not> is_tab_newline c \<and> \<not> special_query_set c \<and> \<not> query_set c \<and>
     c \<noteq> CHR ''?'' \<and> c \<noteq> CHR ''='' \<and> c \<noteq> CHR ''&'')"

definition pair_string :: "string \<times> string \<Rightarrow> string" where
  "pair_string p = urlencoded_string (fst p) @ ''='' @ urlencoded_string (snd p)"

definition query_safe :: "char \<Rightarrow> bool" where
  "query_safe c = (\<not> is_tab_newline c \<and> \<not> special_query_set c \<and> \<not> query_set c \<and> c \<noteq> CHR ''?'')"

definition segment_chars :: "string \<Rightarrow> bool" where
  "segment_chars seg = list_all (\<lambda>c. \<not> path_set c \<and> c \<noteq> CHR ''/'' \<and> c \<noteq> CHR 0x5C) seg"

definition https_wf :: "url \<Rightarrow> bool" where
  "https_wf u =
     (scheme u = ''https'' \<and> wf_userinfo (username u) \<and> wf_userinfo (password u) \<and>
      (case path u of Opaque _ \<Rightarrow> False | Segments segs \<Rightarrow> segs \<noteq> [] \<and> list_all wf_segment segs) \<and>
      (case query u of None \<Rightarrow> True | Some q \<Rightarrow> wf_query q) \<and>
      (case fragment u of None \<Rightarrow> True | Some f \<Rightarrow> wf_fragment f))"

section \<open>Theorems on NonEmptyString\<close>

lemma json_escape_nonempty: "json_escape c \<noteq> []"
  by (simp add: json_escape_def)

lemma json_escape_plain:
  "c \<noteq> CHR 0x22 \<Longrightarrow> c \<noteq> CHR 0x5C \<Longrightarrow> 32 \<le> (of_char c :: nat) \<Longrightarrow> json_escape c = [c]"
  by (auto simp: json_escape_def)

lemma json_escape_single_iff:
  "json_escape c = [c] \<longleftrightarrow> c \<noteq> CHR 0x22 \<and> c \<noteq> CHR 0x5C \<and> 32 \<le> (of_char c :: nat)"
  by (auto simp: json_escape_def)

lemma json_escape_length: "1 \<le> length (json_escape c)"
  by (simp add: json_escape_def)

lemma length_concat_json_escape: "length s \<le> length (concat (map json_escape s))"
proof (induction s)
  case Nil
  show ?case by simp
next
  case (Cons c s)
  have "1 \<le> length (json_escape c)"
    by (rule json_escape_length)
  with Cons show ?case by simp
qed

lemma concat_json_escape_iff:
  "concat (map json_escape s) = s \<longleftrightarrow>
   (\<forall>c \<in> set s. c \<noteq> CHR 0x22 \<and> c \<noteq> CHR 0x5C \<and> 32 \<le> (of_char c :: nat))"
proof (induction s)
  case Nil
  show ?case by simp
next
  case (Cons c s)
  show ?case
  proof (cases "json_escape c = [c]")
    case True
    then show ?thesis
      using Cons json_escape_single_iff [of c] by simp
  next
    case False
    have l1: "1 \<le> length (json_escape c)"
      by (rule json_escape_length)
    have "json_escape c @ concat (map json_escape s) \<noteq> c # s"
    proof
      assume eq: "json_escape c @ concat (map json_escape s) = c # s"
      then have "length (json_escape c) + length (concat (map json_escape s)) = Suc (length s)"
        by (metis length_append length_Cons)
      with l1 length_concat_json_escape [of s]
      have l: "length (json_escape c) = 1" and "length (concat (map json_escape s)) = length s"
        by arith+
      then obtain d where d: "json_escape c = [d]"
        by (cases "json_escape c") simp_all
      with eq have "d = c" by simp
      with d False show False by simp
    qed
    then show ?thesis
      using False json_escape_single_iff [of c] by auto
  qed
qed

text \<open>
  C8. \<open>NonEmptyString.fromString(s)\<close> is absent exactly when \<open>s\<close> is the empty string, and
  otherwise is a wrapped value whose unwrap is \<open>s\<close>. The function is a pure function of
  its argument.
\<close>

theorem C8_fromString:
  "(fromString s = None \<longleftrightarrow> s = '''') \<and>
   (s \<noteq> '''' \<longrightarrow> (\<exists>x. fromString s = Some x \<and> unNonEmptyString x = s \<and> nonEmpty x))"
  by (cases s) (simp_all add: fromString_def fromPredicate_def isEmpty_def nonEmpty_def)

theorem C8_fromString_witness:
  "fromString '''' = None \<and> ''x'' \<noteq> '''' \<and>
   (\<exists>x. fromString ''x'' = Some x \<and> unNonEmptyString x = ''x'' \<and> nonEmpty x)"
  using C8_fromString [of "''x''"] C8_fromString [of "''''"] by simp

text \<open>
  C5. Every endomorphism of the module keeps the invariant (length at least 1): on a value
  that satisfies it, \<open>head\<close> and \<open>last\<close> do not throw and return a value that satisfies
  it, and \<open>toUpperCase\<close>, \<open>toLowerCase\<close>, \<open>prepend\<close>, \<open>append\<close>, \<open>surround\<close>,
  \<open>reverse\<close> and the semigroup's concatenation return a value that satisfies it.
\<close>

theorem C5_endomorphisms_keep_nonEmpty:
  assumes "nonEmpty x"
  shows "(\<exists>y. head x = Inr y \<and> nonEmpty y) \<and>
    (\<exists>y. last_nes x = Inr y \<and> nonEmpty y) \<and>
    nonEmpty (toUpperCase x) \<and>
    nonEmpty (toLowerCase x) \<and>
    nonEmpty (prepend a x) \<and>
    nonEmpty (append_nes a x) \<and>
    nonEmpty (surround a x) \<and>
    nonEmpty (reverse x) \<and>
    (nonEmpty z \<longrightarrow> nonEmpty (Semigroup_concat x z))"
proof -
  obtain c cs where s: "unNonEmptyString x = c # cs"
    using assms by (cases "unNonEmptyString x") (simp_all add: nonEmpty_def)
  have "\<exists>y. head x = Inr y \<and> nonEmpty y"
    by (simp add: head_def Str_head_def unsafeUnwrap_def nonEmpty_def s)
  moreover have "\<exists>y. last_nes x = Inr y \<and> nonEmpty y"
    by (simp add: last_nes_def Str_last_def unsafeUnwrap_def nonEmpty_def s)
  moreover have "nonEmpty (toUpperCase x)" "nonEmpty (toLowerCase x)"
    by (simp_all add: toUpperCase_def toLowerCase_def over_def nonEmpty_def s)
  moreover have "nonEmpty (prepend a x)" "nonEmpty (append_nes a x)"
    by (simp_all add: prepend_def append_nes_def over_def Str_prepend_def Str_append_def
        nonEmpty_def s)
  moreover have "nonEmpty (surround a x)" "nonEmpty (reverse x)"
    by (simp_all add: surround_def reverse_def over_def Str_surround_def Str_reverse_def
        nonEmpty_def s)
  moreover have "nonEmpty (Semigroup_concat x z)"
    by (simp add: Semigroup_concat_def nonEmpty_def s)
  ultimately show ?thesis
    by blast
qed

theorem C5_endomorphisms_keep_nonEmpty_witness:
  "nonEmpty (pack ''ab'') \<and> head (pack ''ab'') = Inr (pack ''a'') \<and>
   last_nes (pack ''ab'') = Inr (pack ''b'') \<and> nonEmpty (pack ''a'') \<and>
   nonEmpty (pack ''b'') \<and> nonEmpty (toUpperCase (pack ''ab'')) \<and>
   nonEmpty (toLowerCase (pack ''ab'')) \<and> nonEmpty (prepend '''' (pack ''ab'')) \<and>
   nonEmpty (append_nes '''' (pack ''ab'')) \<and> nonEmpty (surround '''' (pack ''ab'')) \<and>
   nonEmpty (reverse (pack ''ab'')) \<and>
   nonEmpty (Semigroup_concat (pack ''ab'') (pack ''b''))"
proof -
  have h: "nonEmpty (pack ''ab'')" and k: "nonEmpty (pack ''b'')"
    by (simp_all add: nonEmpty_def)
  show ?thesis
    using h k C5_endomorphisms_keep_nonEmpty [OF h, of "''''" "pack ''b''"]
    by (simp add: head_def last_nes_def Str_head_def Str_last_def unsafeUnwrap_def nonEmpty_def)
qed

text \<open>
  C9, as the claim states it, fails: the \<open>Show\<close> instance does not render the unwrapped
  string verbatim. \<open>Show.show\<close> of the value wrapping \<open>x\<close> is the three characters
  \<open>"x"\<close>, quotes included.
\<close>

theorem C9_show_verbatim_counterexample:
  "Show_show (pack ''x'') = [CHR 0x22, CHR ''x'', CHR 0x22] \<and>
   Show_show (pack ''x'') \<noteq> unNonEmptyString (pack ''x'')"
  by (simp add: Show_show_def JSON_stringify_def json_escape_def)

text \<open>
  C9, amended. \<open>Show.show(x)\<close> is the \<open>Show\<close> instance of strings applied to the
  unwrapped string, the quoted and escaped rendering of \<open>JSON.stringify\<close>: a double quote,
  the rendering of each character of the unwrapped string in order, and a double quote. A
  double quote is rendered as a backslash and a double quote, a backslash as two
  backslashes, the backspace, form feed, line feed, carriage return and tab as a backslash
  and \<open>b\<close>, \<open>f\<close>, \<open>n\<close>, \<open>r\<close>, \<open>t\<close>, any other character \<open>c\<close> below U+0020 as the six
  characters backslash, \<open>u\<close>, \<open>0\<close>, \<open>0\<close> and the two lowercase hexadecimal digits of its
  code, and every other character as itself. So the rendering begins and ends with a double
  quote, is at least two characters longer than the unwrapped string and never equal to it,
  and is the unwrapped string between two double quotes exactly when nothing in it is
  escaped.
\<close>

theorem C9_show_quoted:
  "Show_show x = CHR 0x22 # concat (map json_escape (unNonEmptyString x)) @ [CHR 0x22] \<and>
   json_escape (CHR 0x22) = [CHR 0x5C, CHR 0x22] \<and>
   json_escape (CHR 0x5C) = [CHR 0x5C, CHR 0x5C] \<and>
   json_escape (CHR 0x08) = [CHR 0x5C, CHR ''b''] \<and>
   json_escape (CHR 0x0C) = [CHR 0x5C, CHR ''f''] \<and>
   json_escape (CHR 0x0A) = [CHR 0x5C, CHR ''n''] \<and>
   json_escape (CHR 0x0D) = [CHR 0x5C, CHR ''r''] \<and>
   json_escape (CHR 0x09) = [CHR 0x5C, CHR ''t''] \<and>
   ((of_char c :: nat) < 32 \<and> c \<notin> {CHR 0x08, CHR 0x09, CHR 0x0A, CHR 0x0C, CHR 0x0D} \<longrightarrow>
      json_escape c =
        [CHR 0x5C, CHR ''u'', CHR ''0'', CHR ''0'',
         if (of_char c :: nat) < 16 then CHR ''0'' else CHR ''1'',
         ''0123456789abcdef'' ! ((of_char c :: nat) mod 16)]) \<and>
   (32 \<le> (of_char c :: nat) \<and> c \<noteq> CHR 0x22 \<and> c \<noteq> CHR 0x5C \<longrightarrow> json_escape c = [c]) \<and>
   hd (Show_show x) = CHR 0x22 \<and> last (Show_show x) = CHR 0x22 \<and>
   length (unNonEmptyString x) + 2 \<le> length (Show_show x) \<and>
   Show_show x \<noteq> unNonEmptyString x \<and>
   (Show_show x = CHR 0x22 # unNonEmptyString x @ [CHR 0x22] \<longleftrightarrow>
    (\<forall>c \<in> set (unNonEmptyString x).
        c \<noteq> CHR 0x22 \<and> c \<noteq> CHR 0x5C \<and> 32 \<le> (of_char c :: nat)))"
proof -
  have len: "length (unNonEmptyString x) + 2 \<le> length (Show_show x)"
    using length_concat_json_escape [of "unNonEmptyString x"]
    by (simp add: Show_show_def JSON_stringify_def)
  then have ne: "Show_show x \<noteq> unNonEmptyString x"
    by auto
  have ctl: "(of_char c :: nat) < 32 \<and> c \<notin> {CHR 0x08, CHR 0x09, CHR 0x0A, CHR 0x0C, CHR 0x0D} \<longrightarrow>
      json_escape c =
        [CHR 0x5C, CHR ''u'', CHR ''0'', CHR ''0'',
         if (of_char c :: nat) < 16 then CHR ''0'' else CHR ''1'',
         ''0123456789abcdef'' ! ((of_char c :: nat) mod 16)]"
  proof (intro impI, elim conjE)
    assume lt: "(of_char c :: nat) < 32"
      and nin: "c \<notin> {CHR 0x08, CHR 0x09, CHR 0x0A, CHR 0x0C, CHR 0x0D}"
    have q: "c \<noteq> CHR 0x22" and b: "c \<noteq> CHR 0x5C"
      using lt by auto
    have d: "(of_char c :: nat) div 16 = (if (of_char c :: nat) < 16 then 0 else 1)"
      using lt by (simp add: div_eq_dividend_iff) arith
    have h: "hex_lower ((of_char c :: nat) div 16) =
        (if (of_char c :: nat) < 16 then CHR ''0'' else CHR ''1'')"
      unfolding d by (simp add: hex_lower_def)
    show "json_escape c =
        [CHR 0x5C, CHR ''u'', CHR ''0'', CHR ''0'',
         if (of_char c :: nat) < 16 then CHR ''0'' else CHR ''1'',
         ''0123456789abcdef'' ! ((of_char c :: nat) mod 16)]"
      using lt nin q b h by (simp add: json_escape_def hex_lower_def)
  qed
  have plain: "32 \<le> (of_char c :: nat) \<and> c \<noteq> CHR 0x22 \<and> c \<noteq> CHR 0x5C \<longrightarrow> json_escape c = [c]"
    by (simp add: json_escape_plain)
  have iff: "Show_show x = CHR 0x22 # unNonEmptyString x @ [CHR 0x22] \<longleftrightarrow>
    (\<forall>c \<in> set (unNonEmptyString x).
        c \<noteq> CHR 0x22 \<and> c \<noteq> CHR 0x5C \<and> 32 \<le> (of_char c :: nat))"
    by (simp add: Show_show_def JSON_stringify_def concat_json_escape_iff)
  have fixed: "json_escape (CHR 0x22) = [CHR 0x5C, CHR 0x22]"
    "json_escape (CHR 0x5C) = [CHR 0x5C, CHR 0x5C]"
    "json_escape (CHR 0x08) = [CHR 0x5C, CHR ''b'']"
    "json_escape (CHR 0x0C) = [CHR 0x5C, CHR ''f'']"
    "json_escape (CHR 0x0A) = [CHR 0x5C, CHR ''n'']"
    "json_escape (CHR 0x0D) = [CHR 0x5C, CHR ''r'']"
    "json_escape (CHR 0x09) = [CHR 0x5C, CHR ''t'']"
    by (simp_all add: json_escape_def)
  have shape: "Show_show x = CHR 0x22 # concat (map json_escape (unNonEmptyString x)) @ [CHR 0x22]"
    by (simp add: Show_show_def JSON_stringify_def)
  have ends: "hd (Show_show x) = CHR 0x22" "last (Show_show x) = CHR 0x22"
    by (simp_all add: shape)
  show ?thesis
    using shape fixed ctl plain ends len ne iff by blast
qed

theorem C9_show_quoted_witness:
  "Show_show (pack [CHR ''a'', CHR 0x22, CHR 0x5C, CHR 0x0A, CHR 0x1F, CHR 0x7F]) =
     [CHR 0x22, CHR ''a'', CHR 0x5C, CHR 0x22, CHR 0x5C, CHR 0x5C, CHR 0x5C, CHR ''n'',
      CHR 0x5C, CHR ''u'', CHR ''0'', CHR ''0'', CHR ''1'', CHR ''f'', CHR 0x7F, CHR 0x22] \<and>
   json_escape (CHR 0x1F) = [CHR 0x5C, CHR ''u'', CHR ''0'', CHR ''0'', CHR ''1'', CHR ''f''] \<and>
   json_escape (CHR 0x7F) = [CHR 0x7F] \<and>
   json_escape (CHR ''a'') = [CHR ''a'']"
  using C9_show_quoted [of "pack [CHR ''a'', CHR 0x22, CHR 0x5C, CHR 0x0A, CHR 0x1F, CHR 0x7F]" "CHR 0x1F"]
    C9_show_quoted [of "pack ''a''" "CHR 0x7F"]
    C9_show_quoted [of "pack ''a''" "CHR ''a''"]
  by simp

section \<open>Theorems on URLSearchParams\<close>

lemma map_of_own_foldl:
  assumes "k \<noteq> ''__proto__''"
  shows "map_of (own (foldl (\<lambda>r a. case f a of (k, b) \<Rightarrow>
              if k = ''__proto__'' then r\<lparr>proto := Some b\<rparr>
              else r\<lparr>own := AList.update k
                     (case map_of (own r) k of Some old \<Rightarrow> M old b | None \<Rightarrow> b) (own r)\<rparr>)
            r0 xs)) k =
   foldl (\<lambda>acc b. Some (case acc of None \<Rightarrow> b | Some old \<Rightarrow> M old b)) (map_of (own r0) k)
     (map snd (filter (\<lambda>p. fst p = k) (map f xs)))"
proof (induction xs arbitrary: r0)
  case Nil
  show ?case by simp
next
  case (Cons a xs)
  obtain k' b where fa: "f a = (k', b)"
    by (cases "f a")
  show ?case
    using assms by (simp add: Cons fa update_conv' split: option.splits)
qed

lemma map_of_own_foldl_proto:
  "map_of (own (foldl (\<lambda>r a. case f a of (k, b) \<Rightarrow>
              if k = ''__proto__'' then r\<lparr>proto := Some b\<rparr>
              else r\<lparr>own := AList.update k
                     (case map_of (own r) k of Some old \<Rightarrow> M old b | None \<Rightarrow> b) (own r)\<rparr>)
            r0 xs)) ''__proto__'' = map_of (own r0) ''__proto__''"
proof (induction xs arbitrary: r0)
  case Nil
  show ?case by simp
next
  case (Cons a xs)
  obtain k' b where fa: "f a = (k', b)"
    by (cases "f a")
  show ?case
    by (simp add: Cons fa update_conv')
qed

lemma proto_foldl:
  assumes "''__proto__'' \<notin> fst ` f ` set xs"
  shows "proto (foldl (\<lambda>r a. case f a of (k, b) \<Rightarrow>
              if k = ''__proto__'' then r\<lparr>proto := Some b\<rparr>
              else r\<lparr>own := AList.update k
                     (case map_of (own r) k of Some old \<Rightarrow> M old b | None \<Rightarrow> b) (own r)\<rparr>)
            r0 xs) = proto r0"
  using assms
proof (induction xs arbitrary: r0)
  case Nil
  show ?case by simp
next
  case (Cons a xs)
  obtain k' b where fa: "f a = (k', b)"
    by (cases "f a")
  with Cons.prems have "k' \<noteq> ''__proto__''"
    by force
  with Cons show ?case
    by (simp add: fa)
qed

lemma distinct_own_foldl:
  "distinct (map fst (own r0)) \<Longrightarrow>
   distinct (map fst (own (foldl (\<lambda>r a. case f a of (k, b) \<Rightarrow>
              if k = ''__proto__'' then r\<lparr>proto := Some b\<rparr>
              else r\<lparr>own := AList.update k
                     (case map_of (own r) k of Some old \<Rightarrow> M old b | None \<Rightarrow> b) (own r)\<rparr>)
            r0 xs)))"
proof (induction xs arbitrary: r0)
  case Nil
  then show ?case by simp
next
  case (Cons a xs)
  obtain k' b where fa: "f a = (k', b)"
    by (cases "f a")
  show ?case
    using Cons.prems by (simp add: fa Cons.IH distinct_update)
qed

lemma foldl_Some_append:
  "foldl (\<lambda>acc b. Some (case acc of None \<Rightarrow> b | Some old \<Rightarrow> old @ b)) acc (map NEA_of vs) =
   (if vs = [] then acc else Some ((case acc of None \<Rightarrow> [] | Some old \<Rightarrow> old) @ vs))"
  by (induction vs arbitrary: acc) (auto simp: NEA_of_def split: option.splits)

lemma map_of_toRecord:
  assumes "k \<noteq> ''__proto__''"
  shows "map_of (own (toRecord x)) k = (if getAll k x = [] then None else Some (getAll k x))"
proof -
  have "map snd (filter (\<lambda>p. fst p = k) (map (mapSnd NEA_of) x)) = map NEA_of (getAll k x)"
    by (induction x) (simp_all add: getAll_def mapSnd_def)
  then show ?thesis
    unfolding toRecord_def fromFoldableMap_def toTuples_def
    by (simp add: map_of_own_foldl [OF assms] foldl_Some_append)
qed

lemma map_of_toRecord_proto: "map_of (own (toRecord x)) ''__proto__'' = None"
  unfolding toRecord_def fromFoldableMap_def toTuples_def
  by (simp add: map_of_own_foldl_proto)

lemma distinct_toRecord: "distinct (map fst (own (toRecord x)))"
  unfolding toRecord_def fromFoldableMap_def toTuples_def
  by (rule distinct_own_foldl) simp

lemma proto_toRecord: "''__proto__'' \<notin> fst ` set x \<Longrightarrow> proto (toRecord x) = None"
proof -
  assume "''__proto__'' \<notin> fst ` set x"
  then have "''__proto__'' \<notin> fst ` mapSnd NEA_of ` set x"
    by (force simp: mapSnd_def)
  then show ?thesis
    unfolding toRecord_def fromFoldableMap_def toTuples_def
    by (simp add: proto_foldl)
qed

lemma getAll_empty_iff: "getAll k x = [] \<longleftrightarrow> k \<notin> fst ` set x"
  by (auto simp: getAll_def filter_empty_conv)

lemma getDisorderedEq_mset: "getDisorderedEq xs ys \<longleftrightarrow> mset xs = mset ys"
  unfolding getDisorderedEq_def
  by (metis mset_sort properties_for_sort sorted_sort)

lemma own_subrecord_iff:
  assumes "distinct (map fst me)"
  shows "list_all (\<lambda>(k, a). case map_of that k of None \<Rightarrow> False | Some b \<Rightarrow> E a b) me \<longleftrightarrow>
   (\<forall>k a. map_of me k = Some a \<longrightarrow> (\<exists>b. map_of that k = Some b \<and> E a b))"
proof -
  have "list_all (\<lambda>(k, a). case map_of that k of None \<Rightarrow> False | Some b \<Rightarrow> E a b) me \<longleftrightarrow>
     (\<forall>k a. (k, a) \<in> set me \<longrightarrow> (\<exists>b. map_of that k = Some b \<and> E a b))"
    unfolding list_all_iff
    by (fastforce split: option.splits)
  then show ?thesis
    by (simp add: map_of_eq_Some_iff [OF assms])
qed

lemma isSubrecord_no_proto:
  assumes "''__proto__'' \<notin> fst ` set x"
  shows "isSubrecord getDisorderedEq mixed (toRecord x) (toRecord y) =
     Inr (\<forall>k. k \<noteq> ''__proto__'' \<longrightarrow> getAll k x \<noteq> [] \<longrightarrow>
            getAll k y \<noteq> [] \<and> mset (getAll k x) = mset (getAll k y))"
proof -
  have "list_all (\<lambda>(k, a). case map_of (own (toRecord y)) k of None \<Rightarrow> False
          | Some b \<Rightarrow> getDisorderedEq a b) (own (toRecord x)) \<longleftrightarrow>
     (\<forall>k a. map_of (own (toRecord x)) k = Some a \<longrightarrow>
        (\<exists>b. map_of (own (toRecord y)) k = Some b \<and> getDisorderedEq a b))"
    by (rule own_subrecord_iff) (rule distinct_toRecord)
  also have "\<dots> \<longleftrightarrow> (\<forall>k. k \<noteq> ''__proto__'' \<longrightarrow> getAll k x \<noteq> [] \<longrightarrow>
            getAll k y \<noteq> [] \<and> mset (getAll k x) = mset (getAll k y))"
  proof (intro iff_allI)
    fix k
    show "(\<forall>a. map_of (own (toRecord x)) k = Some a \<longrightarrow>
        (\<exists>b. map_of (own (toRecord y)) k = Some b \<and> getDisorderedEq a b)) \<longleftrightarrow>
      (k \<noteq> ''__proto__'' \<longrightarrow> getAll k x \<noteq> [] \<longrightarrow>
            getAll k y \<noteq> [] \<and> mset (getAll k x) = mset (getAll k y))"
    proof (cases "k = ''__proto__''")
      case True
      then show ?thesis
        by (simp add: map_of_toRecord_proto)
    next
      case False
      then show ?thesis
        by (simp add: map_of_toRecord getDisorderedEq_mset)
    qed
  qed
  finally show ?thesis
    by (simp add: isSubrecord_def proto_toRecord [OF assms])
qed

lemma Params_Eq_iff:
  assumes x: "''__proto__'' \<notin> fst ` set x" and y: "''__proto__'' \<notin> fst ` set y"
  shows "Params_Eq mixed x y = Inr (\<forall>k. mset (getAll k x) = mset (getAll k y))"
proof -
  define A where "A \<longleftrightarrow> (\<forall>k. k \<noteq> ''__proto__'' \<longrightarrow> getAll k y \<noteq> [] \<longrightarrow>
            getAll k x \<noteq> [] \<and> mset (getAll k y) = mset (getAll k x))"
  define B where "B \<longleftrightarrow> (\<forall>k. k \<noteq> ''__proto__'' \<longrightarrow> getAll k x \<noteq> [] \<longrightarrow>
            getAll k y \<noteq> [] \<and> mset (getAll k x) = mset (getAll k y))"
  define L where "L \<longleftrightarrow> (\<forall>k. mset (getAll k x) = mset (getAll k y))"
  have subs: "isSubrecord getDisorderedEq mixed (toRecord y) (toRecord x) = Inr A"
    "isSubrecord getDisorderedEq mixed (toRecord x) (toRecord y) = Inr B"
    unfolding A_def B_def by (rule isSubrecord_no_proto [OF y], rule isSubrecord_no_proto [OF x])
  have none: "getAll ''__proto__'' x = []" "getAll ''__proto__'' y = []"
    using x y by (simp_all add: getAll_empty_iff)
  have "L \<longleftrightarrow> A \<and> B"
  proof
    assume l: L
    then have "getAll k x = [] \<longleftrightarrow> getAll k y = []" for k
      unfolding L_def by (metis mset_zero_iff)
    with l show "A \<and> B"
      unfolding L_def A_def B_def by simp
  next
    assume ab: "A \<and> B"
    have "mset (getAll k x) = mset (getAll k y)" for k
    proof (cases "k = ''__proto__''")
      case True
      with none show ?thesis by simp
    next
      case False
      from ab False have 1: "getAll k y \<noteq> [] \<Longrightarrow> mset (getAll k y) = mset (getAll k x)"
        and 2: "getAll k x \<noteq> [] \<Longrightarrow> mset (getAll k x) = mset (getAll k y)"
        unfolding A_def B_def by blast+
      show ?thesis
      proof (cases "getAll k x = []")
        case True
        with 1 show ?thesis
          by (cases "getAll k y = []") simp_all
      next
        case False
        with 2 show ?thesis by simp
      qed
    qed
    then show L
      unfolding L_def by blast
  qed
  moreover have "Params_Eq mixed x y = Inr (A \<and> B)"
    by (cases A) (simp_all add: Params_Eq_def Record_getEq_def subs)
  ultimately show ?thesis
    unfolding L_def by simp
qed

lemma Params_fromString_examples:
  "Params_fromString ''a=1&b=2'' = [(''a'', ''1''), (''b'', ''2'')]"
  "Params_fromString ''b=2&a=1'' = [(''b'', ''2''), (''a'', ''1'')]"
  "Params_fromString ''a=1&b=2&a=3'' = [(''a'', ''1''), (''b'', ''2''), (''a'', ''3'')]"
  "Params_fromString ''b=2&a=3&a=1'' = [(''b'', ''2''), (''a'', ''3''), (''a'', ''1'')]"
  "Params_fromString ''a=b&c=d1&c=d2'' = [(''a'', ''b''), (''c'', ''d1''), (''c'', ''d2'')]"
  "Params_fromString ''__proto__=x&a=1'' = [(''__proto__'', ''x''), (''a'', ''1'')]"
  by (simp_all add: Params_fromString_def urlencoded_parse_def parse_pair_def plus_to_space_def)

text \<open>
  The prototype at work: a pair named \<open>__proto__\<close> is not an own key, and the indices
  of its values are keys that \<open>for in\<close> visits.
\<close>

lemma Params_Eq_proto_examples:
  "Params_Eq mixed [(''__proto__'', ''1'')] [(''__proto__'', ''1'')] = Inr False"
  "Params_Eq mixed [(''0'', ''1''), (''__proto__'', ''5'')] [(''0'', ''1'')] = Inr True"
  "Params_Eq mixed [(''__proto__'', ''5'')] [(''0'', ''1'')] = Inr False"
  by (simp_all add: Params_Eq_def Record_getEq_def isSubrecord_def toRecord_def
      fromFoldableMap_def toTuples_def mapSnd_def NEA_of_def getDisorderedEq_def
      enumerate_eq_zip show_nat.simps)

text \<open>
  C6. The claim fails on the code at the key \<open>__proto__\<close>. For every other key it holds:
  \<open>toRecord(x)\<close> maps a key that occurs in \<open>x\<close> to the non-empty sequence of the values
  of the pairs with that key, in the order of \<open>x\<close>, a key that does not occur is absent, no
  entry has an empty sequence and each key has one entry. But a pair named \<open>__proto__\<close>
  never gets an entry: \<open>toRecord\<close> of \<open>__proto__=x&a=1\<close> has the one key \<open>a\<close>, and the
  array \<open>["x"]\<close> as its prototype.
\<close>

theorem C6_toRecord_groups_but_proto:
  "(k \<noteq> ''__proto__'' \<longrightarrow>
      map_of (own (toRecord x)) k =
        (if k \<in> fst ` set (toTuples x)
         then Some (map snd (filter (\<lambda>p. fst p = k) (toTuples x))) else None)) \<and>
   (k \<in> fst ` set (toTuples x) \<longrightarrow> map snd (filter (\<lambda>p. fst p = k) (toTuples x)) \<noteq> []) \<and>
   (\<forall>vs. (k, vs) \<in> set (own (toRecord x)) \<longrightarrow>
      vs \<noteq> [] \<and> k \<in> fst ` set (toTuples x) \<and> k \<noteq> ''__proto__'') \<and>
   distinct (map fst (own (toRecord x))) \<and>
   map_of (own (toRecord x)) ''__proto__'' = None \<and>
   toRecord (Params_fromString ''__proto__=x&a=1'') =
     \<lparr>own = [(''a'', [''1''])], proto = Some [''x'']\<rparr>"
proof -
  have a: "map_of (own (toRecord x)) k =
     (if k \<in> fst ` set x then Some (map snd (filter (\<lambda>p. fst p = k) x)) else None)"
    if "k \<noteq> ''__proto__''"
    using getAll_empty_iff [of k x] by (simp add: map_of_toRecord [OF that]) (simp add: getAll_def)
  have b: "k \<in> fst ` set x \<longrightarrow> map snd (filter (\<lambda>p. fst p = k) x) \<noteq> []"
    using getAll_empty_iff [of k x] by (simp add: getAll_def)
  have c: "vs \<noteq> [] \<and> k \<in> fst ` set x \<and> k \<noteq> ''__proto__''"
    if "(k, vs) \<in> set (own (toRecord x))" for vs
  proof -
    from that have m: "map_of (own (toRecord x)) k = Some vs"
      by (simp add: map_of_eq_Some_iff [OF distinct_toRecord])
    then have k: "k \<noteq> ''__proto__''"
      using map_of_toRecord_proto [of x] by auto
    with m a b show ?thesis
      by (auto split: if_splits)
  qed
  have d: "toRecord (Params_fromString ''__proto__=x&a=1'') =
     \<lparr>own = [(''a'', [''1''])], proto = Some [''x'']\<rparr>"
    by (simp add: Params_fromString_examples toRecord_def fromFoldableMap_def toTuples_def
        mapSnd_def NEA_of_def)
  from a b c d show ?thesis
    by (simp add: toTuples_def distinct_toRecord map_of_toRecord_proto)
qed

theorem C6_toRecord_groups_but_proto_witness:
  "map_of (own (toRecord (Params_fromString ''a=b&c=d1&c=d2''))) ''c'' = Some [''d1'', ''d2''] \<and>
   map_of (own (toRecord (Params_fromString ''a=b&c=d1&c=d2''))) ''e'' = None \<and>
   ''__proto__'' \<in> fst ` set (toTuples (Params_fromString ''__proto__=x&a=1'')) \<and>
   map_of (own (toRecord (Params_fromString ''__proto__=x&a=1''))) ''__proto__'' = None \<and>
   own (toRecord (Params_fromString ''__proto__=x&a=1'')) = [(''a'', [''1''])]"
  using C6_toRecord_groups_but_proto [of "''c''" "Params_fromString ''a=b&c=d1&c=d2''"]
    C6_toRecord_groups_but_proto [of "''e''" "Params_fromString ''a=b&c=d1&c=d2''"]
    C6_toRecord_groups_but_proto [of "''__proto__''" "Params_fromString ''__proto__=x&a=1''"]
  by (simp add: Params_fromString_examples toTuples_def)

text \<open>
  C10. \<open>lookupFirst(k)(x)\<close> and \<open>lookup(k)(x)\<close> agree: each is absent exactly when no pair
  of \<open>x\<close> has the key \<open>k\<close>, and when \<open>lookup(k)(x)\<close> is the sequence \<open>vs\<close>, \<open>vs\<close> is
  non-empty and \<open>lookupFirst(k)(x)\<close> is its first element.
\<close>

theorem C10_lookupFirst_is_head_of_lookup:
  "(lookupFirst k x = None \<longleftrightarrow> k \<notin> fst ` set (toTuples x)) \<and>
   (lookup k x = None \<longleftrightarrow> k \<notin> fst ` set (toTuples x)) \<and>
   lookupFirst k x = map_option hd (lookup k x) \<and>
   (\<forall>vs. lookup k x = Some vs \<longrightarrow> vs \<noteq> [] \<and> lookupFirst k x = Some (hd vs))"
proof -
  have a: "lookupFirst k x = map_option hd (lookup k x)"
    unfolding lookupFirst_def lookup_def get_first_def getAll_def NEA_fromArray_def
    by (induction x) auto
  have b: "lookup k x = None \<longleftrightarrow> k \<notin> fst ` set x"
    using getAll_empty_iff [of k x] by (simp add: lookup_def NEA_fromArray_def)
  have c: "\<forall>vs. lookup k x = Some vs \<longrightarrow> vs \<noteq> []"
    by (simp add: lookup_def NEA_fromArray_def)
  from a b c show ?thesis
    by (auto simp: toTuples_def)
qed

theorem C10_lookupFirst_is_head_of_lookup_witness:
  "lookup ''c'' (Params_fromString ''a=b&c=d1&c=d2'') = Some [''d1'', ''d2''] \<and>
   lookupFirst ''c'' (Params_fromString ''a=b&c=d1&c=d2'') = Some ''d1'' \<and>
   lookup ''e'' (Params_fromString ''a=b&c=d1&c=d2'') = None \<and>
   lookupFirst ''e'' (Params_fromString ''a=b&c=d1&c=d2'') = None"
  using C10_lookupFirst_is_head_of_lookup [of "''c''" "Params_fromString ''a=b&c=d1&c=d2''"]
    C10_lookupFirst_is_head_of_lookup [of "''e''" "Params_fromString ''a=b&c=d1&c=d2''"]
  by (simp add: Params_fromString_examples lookup_def NEA_fromArray_def getAll_def toTuples_def)

text \<open>
  C3, as the claim states it, fails: the instance does not compare the grouped value
  sequences of \<open>toRecord\<close> as sequences. The doc comment's own example,
  \<open>a=1&b=2&a=3\<close> against \<open>b=2&a=3&a=1\<close>, is a pair the instance equates although
  \<open>toRecord\<close> groups \<open>a\<close> to \<open>[1, 3]\<close> in the one and to \<open>[3, 1]\<close> in the other.
\<close>

theorem C3_Eq_same_key_order_counterexample:
  "Params_Eq (\<lambda>s ys. Inl TypeError)
     (Params_fromString ''a=1&b=2&a=3'') (Params_fromString ''b=2&a=3&a=1'') = Inr True \<and>
   map_of (own (toRecord (Params_fromString ''a=1&b=2&a=3''))) ''a'' = Some [''1'', ''3''] \<and>
   map_of (own (toRecord (Params_fromString ''b=2&a=3&a=1''))) ''a'' = Some [''3'', ''1''] \<and>
   toRecord (Params_fromString ''a=1&b=2&a=3'') \<noteq> toRecord (Params_fromString ''b=2&a=3&a=1'')"
proof -
  have eq: "Params_Eq (\<lambda>s ys. Inl TypeError)
     (Params_fromString ''a=1&b=2&a=3'') (Params_fromString ''b=2&a=3&a=1'') = Inr True"
    by (subst Params_Eq_iff) (simp_all add: Params_fromString_examples getAll_def)
  have x: "map_of (own (toRecord (Params_fromString ''a=1&b=2&a=3''))) ''a'' = Some [''1'', ''3'']"
    and y: "map_of (own (toRecord (Params_fromString ''b=2&a=3&a=1''))) ''a'' = Some [''3'', ''1'']"
    by (simp_all add: map_of_toRecord Params_fromString_examples getAll_def)
  have "toRecord (Params_fromString ''a=1&b=2&a=3'') \<noteq>
     toRecord (Params_fromString ''b=2&a=3&a=1'')"
  proof
    assume "toRecord (Params_fromString ''a=1&b=2&a=3'') =
      toRecord (Params_fromString ''b=2&a=3&a=1'')"
    then have "map_of (own (toRecord (Params_fromString ''a=1&b=2&a=3''))) ''a'' =
      map_of (own (toRecord (Params_fromString ''b=2&a=3&a=1''))) ''a''"
      by simp
    with x y show False
      by simp
  qed
  with eq x y show ?thesis
    by simp
qed

text \<open>
  C3, amended. For two collections in which no pair is named \<open>__proto__\<close>, the instance
  equates them if and only if every key has the same values the same number of times in
  both, in any order: neither the order of pairs with different keys nor the order of the
  values of one key counts. \<open>fromString("a=1&b=2")\<close> equals \<open>fromString("b=2&a=1")\<close>, and
  \<open>fromString("a=1&b=2&a=3")\<close> differs from \<open>fromString("a=1&b=2")\<close>.
\<close>

theorem C3_Eq_values_as_multisets:
  "(''__proto__'' \<notin> fst ` set (toTuples x) \<and> ''__proto__'' \<notin> fst ` set (toTuples y) \<longrightarrow>
      Params_Eq mixed x y =
        Inr (\<forall>k. mset (map snd (filter (\<lambda>p. fst p = k) (toTuples x))) =
                 mset (map snd (filter (\<lambda>p. fst p = k) (toTuples y))))) \<and>
   Params_Eq mixed (Params_fromString ''a=1&b=2'') (Params_fromString ''b=2&a=1'') = Inr True \<and>
   Params_Eq mixed (Params_fromString ''a=1&b=2&a=3'') (Params_fromString ''a=1&b=2'') = Inr False"
proof -
  have "Params_Eq mixed (Params_fromString ''a=1&b=2&a=3'') (Params_fromString ''a=1&b=2'') =
      Inr False"
    by (subst Params_Eq_iff) (simp_all add: Params_fromString_examples getAll_def)
  moreover have "Params_Eq mixed (Params_fromString ''a=1&b=2'') (Params_fromString ''b=2&a=1'') =
      Inr True"
    by (subst Params_Eq_iff) (simp_all add: Params_fromString_examples getAll_def)
  ultimately show ?thesis
    using Params_Eq_iff [of x y mixed] by (simp add: getAll_def toTuples_def)
qed

theorem C3_Eq_values_as_multisets_witness:
  "Params_Eq (\<lambda>s ys. Inl TypeError) [(''a'', ''1''), (''a'', ''3'')] [(''a'', ''3''), (''a'', ''1'')] =
     Inr True \<and>
   Params_Eq (\<lambda>s ys. Inl TypeError) [(''a'', ''1'')] [(''a'', ''1''), (''a'', ''1'')] = Inr False"
  using C3_Eq_values_as_multisets [of "[(''a'', ''1''), (''a'', ''3'')]"
      "[(''a'', ''3''), (''a'', ''1'')]" "\<lambda>s ys. Inl TypeError"]
    C3_Eq_values_as_multisets [of "[(''a'', ''1'')]" "[(''a'', ''1''), (''a'', ''1'')]"
      "\<lambda>s ys. Inl TypeError"]
  by (simp add: toTuples_def)

section \<open>Theorems on the platform's URL\<close>

subsection \<open>The parser on the origin of phonyBase\<close>

lemma parse_query_fragment_keeps:
  "scheme (parse_query_fragment u s) = scheme u"
  "username (parse_query_fragment u s) = username u"
  "password (parse_query_fragment u s) = password u"
  "host (parse_query_fragment u s) = host u"
  "port (parse_query_fragment u s) = port u"
  "path (parse_query_fragment u s) = path u"
  by (simp_all add: parse_query_fragment_def split: list.splits)

lemma from_path_state_keeps:
  "scheme (from_path_state u s) = scheme u"
  "username (from_path_state u s) = username u"
  "password (from_path_state u s) = password u"
  "host (from_path_state u s) = host u"
  "port (from_path_state u s) = port u"
  by (simp_all add: from_path_state_def parse_query_fragment_keeps)

lemma origin_from_path_state: "origin (from_path_state u s) = origin u"
  by (simp add: origin_def from_path_state_keeps)

lemma strip_c0_space_prefix:
  assumes "\<not> is_c0_or_space a" "\<not> is_c0_or_space b"
  shows "strip_c0_space (a # p @ b # s) = a # p @ b # strip_trailing s"
proof -
  have "dropWhile is_c0_or_space (rev s @ b # rev p @ [a]) =
      dropWhile is_c0_or_space (rev s) @ b # rev p @ [a]"
    using assms by (simp add: dropWhile_append)
  then show ?thesis
    using assms by (simp add: strip_c0_space_def strip_trailing_def)
qed

lemma phony_host_port:
  "parse_host_port ext ''https'' ''urlpath.fp-ts-std.samhh.com'' =
     Some (''urlpath.fp-ts-std.samhh.com'', None)"
  by (simp add: parse_host_port_def host_parse_def is_special_def plain_ascii_domain_def
      is_dot_def lower_char_def is_upper_def forbidden_domain_def forbidden_host_def
      ends_in_number_def is_digit_def Let_def)

lemma phony_authority:
  "from_authority_state ext ''https'' (''urlpath.fp-ts-std.samhh.com/'' @ s) =
     Some (from_path_state phony_start s)"
  by (simp add: from_authority_state_def authority_end_def is_special_def not_at_def Let_def
      phony_host_port from_path_start_state_def phony_start_def blank_url_def not_colon_def
      percent_encode_def)

lemma phony_strip:
  "strip_c0_space (''https://urlpath.fp-ts-std.samhh.com/'' @ s) =
      ''https://urlpath.fp-ts-std.samhh.com/'' @ strip_trailing s"
  using strip_c0_space_prefix [of "CHR ''h''" "CHR ''/''" "''ttps://urlpath.fp-ts-std.samhh.com''" s]
  by (simp add: is_c0_or_space_def)

lemma phony_split:
  "split_scheme (''https://urlpath.fp-ts-std.samhh.com/'' @ t) =
      Some (''https'', ''//urlpath.fp-ts-std.samhh.com/'' @ t)"
  by (simp add: split_scheme_def is_alpha_def is_lower_def is_upper_def scheme_char_def
        is_digit_def lower_char_def)

lemma phony_rm:
  "remove_tab_newline (''https://urlpath.fp-ts-std.samhh.com/'' @ t) =
      ''https://urlpath.fp-ts-std.samhh.com/'' @ remove_tab_newline t"
  by (simp add: remove_tab_newline_def is_tab_newline_def)

lemma phony_auth:
  "from_authority_state ext ''https'' (dropWhile is_slash (''//urlpath.fp-ts-std.samhh.com/'' @ t)) =
      Some (from_path_state phony_start t)"
  using phony_authority [of ext t] by (simp add: is_slash_def)

lemma url_parse_phony_slash:
  "url_parse ext (''https://urlpath.fp-ts-std.samhh.com/'' @ s) =
     Some (from_path_state phony_start (remove_tab_newline (strip_trailing s)))"
  by (simp only: url_parse_def phony_strip phony_rm phony_split option.case prod.case phony_auth)
     (simp add: is_special_def)

lemma origin_phonyBase: "origin phonyBase = ''https://urlpath.fp-ts-std.samhh.com''"
  by (simp add: origin_def phonyBase_def)

lemma origin_phony_start: "origin phony_start = origin phonyBase"
  by (simp add: origin_def phonyBase_def phony_start_def blank_url_def)

subsection \<open>Reading back what the getters write\<close>

lemma percent_encode_id: "list_all (\<lambda>c. \<not> S c) s \<Longrightarrow> percent_encode S s = s"
  by (induction s) (simp_all add: percent_encode_def percent_encode_char_def)

lemma splitBy_nonempty: "splitBy P s \<noteq> []"
  by (cases s) (simp_all add: Let_def)

lemma splitBy_no_sep: "list_all (\<lambda>c. \<not> P c) w \<Longrightarrow> splitBy P w = [w]"
  by (induction w) (simp_all add: Let_def)

lemma splitBy_append_sep:
  "list_all (\<lambda>c. \<not> P c) w \<Longrightarrow> P c \<Longrightarrow> splitBy P (w @ c # r) = w # splitBy P r"
  by (induction w) (simp_all add: Let_def)

lemma splitBy_join:
  "P sep \<Longrightarrow> list_all (\<lambda>c. \<not> P c) seg \<Longrightarrow> list_all (list_all (\<lambda>c. \<not> P c)) segs \<Longrightarrow>
   splitBy P (seg @ concat (map ((#) sep) segs)) = seg # segs"
proof (induction segs arbitrary: seg)
  case Nil
  then show ?case by (simp add: splitBy_no_sep)
next
  case (Cons a segs)
  then show ?case by (simp add: splitBy_append_sep)
qed

lemma path_state_plain:
  "sch \<noteq> ''file'' \<Longrightarrow> segs \<noteq> [] \<Longrightarrow>
   list_all (\<lambda>s. \<not> single_dot s \<and> \<not> double_dot s) segs \<Longrightarrow>
   path_state sch p segs = p @ segs"
  by (induction sch p segs rule: path_state.induct) (simp_all add: push_segment_def)

lemma wf_segment_no_sep: "wf_segment seg \<Longrightarrow> list_all (\<lambda>c. \<not> is_path_sep sch c) seg"
  by (simp add: wf_segment_def is_path_sep_def list_all_iff) 

lemma wf_segment_encode: "wf_segment seg \<Longrightarrow> percent_encode path_set seg = seg"
  by (rule percent_encode_id) (simp add: wf_segment_def list_all_iff)

lemma parse_path_join:
  assumes "sch \<noteq> ''file''" "list_all wf_segment (seg # segs)"
  shows "parse_path sch (seg @ concat (map ((#) CHR ''/'') segs)) = seg # segs"
proof -
  have "is_path_sep sch CHR ''/''"
    by (simp add: is_path_sep_def)
  moreover have "list_all (\<lambda>c. \<not> is_path_sep sch c) seg"
    using assms(2) by (simp add: wf_segment_no_sep)
  moreover have "list_all (list_all (\<lambda>c. \<not> is_path_sep sch c)) segs"
    using assms(2) wf_segment_no_sep [of _ sch] by (auto simp: list_all_iff)
  ultimately have "splitBy (is_path_sep sch) (seg @ concat (map ((#) CHR ''/'') segs)) = seg # segs"
    by (rule splitBy_join)
  moreover have "map (percent_encode path_set) (seg # segs) = seg # segs"
    using assms(2) by (simp add: wf_segment_encode list_all_iff map_idI)
  moreover have "path_state sch [] (seg # segs) = [] @ seg # segs"
    using assms by (intro path_state_plain) (simp_all add: wf_segment_def list_all_iff)
  ultimately show ?thesis
    by (simp add: parse_path_def)
qed

lemma takeWhile_append_stop:
  "list_all P xs \<Longrightarrow> ys = [] \<or> \<not> P (hd ys) \<Longrightarrow> takeWhile P (xs @ ys) = xs"
  by (induction xs) (auto simp: takeWhile_eq_Nil_iff)

lemma dropWhile_append_stop:
  "list_all P xs \<Longrightarrow> ys = [] \<or> \<not> P (hd ys) \<Longrightarrow> dropWhile P (xs @ ys) = ys"
  by (induction xs) (auto simp: dropWhile_eq_self_iff)

lemma strip_trailing_id: "list_all (\<lambda>c. \<not> is_c0_or_space c) s \<Longrightarrow> strip_trailing s = s"
proof -
  assume a: "list_all (\<lambda>c. \<not> is_c0_or_space c) s"
  have "dropWhile is_c0_or_space (rev s) = rev s"
    using a by (cases "rev s") (auto simp: list_all_iff dest: arg_cong [where f = set])
  then show ?thesis
    by (simp add: strip_trailing_def)
qed

lemma remove_tab_newline_id: "list_all (\<lambda>c. \<not> is_c0_or_space c) s \<Longrightarrow> remove_tab_newline s = s"
  by (induction s) (auto simp: remove_tab_newline_def is_tab_newline_def is_c0_or_space_def)

text \<open>The query and the fragment of a URL, as \<open>search\<close> and \<open>hash\<close> write them, read back.\<close>

lemma wf_query_no_hash: "wf_query q \<Longrightarrow> list_all not_hash q"
  by (simp add: wf_query_def list_all_iff special_query_set_def query_set_def not_hash_def)

lemma wf_query_encode: "wf_query q \<Longrightarrow> query_encode ''https'' q = q"
  by (simp add: query_encode_def is_special_def wf_query_def percent_encode_id)

lemma wf_fragment_encode: "wf_fragment f \<Longrightarrow> percent_encode fragment_set f = f"
  by (simp add: wf_fragment_def percent_encode_id)

lemma hash_of_stop: "hash_of f = [] \<or> \<not> not_hash (hd (hash_of f))"
  by (simp add: hash_of_def not_hash_def split: option.splits)

lemma parse_query_fragment_search_hash:
  assumes sch: "scheme u = ''https''" and none: "query u = None" "fragment u = None"
    and q: "case q of None \<Rightarrow> True | Some a \<Rightarrow> wf_query a \<and> a \<noteq> []"
    and f: "case f of None \<Rightarrow> True | Some a \<Rightarrow> wf_fragment a \<and> a \<noteq> []"
  shows "parse_query_fragment u (search_of q @ hash_of f) = u\<lparr>query := q, fragment := f\<rparr>"
proof (cases q)
  case None
  show ?thesis
  proof (cases f)
    case fNone: None
    show ?thesis
      using none by (simp add: None fNone search_of_def hash_of_def parse_query_fragment_def)
  next
    case (Some b)
    with f have "wf_fragment b" "b \<noteq> []"
      by simp_all
    then show ?thesis
      using none
      by (simp add: None Some search_of_def hash_of_def parse_query_fragment_def wf_fragment_encode)
  qed
next
  case (Some a)
  with q have a: "wf_query a" "a \<noteq> []"
    by simp_all
  have drop: "dropWhile not_hash (a @ hash_of f) = hash_of f"
    using wf_query_no_hash [OF a(1)] hash_of_stop [of f] by (rule dropWhile_append_stop)
  have take: "takeWhile not_hash (a @ hash_of f) = a"
    using wf_query_no_hash [OF a(1)] hash_of_stop [of f] by (rule takeWhile_append_stop)
  show ?thesis
  proof (cases f)
    case None
    have "dropWhile not_hash a = []"
      using wf_query_no_hash [OF a(1)] by (simp add: list_all_iff)
    then show ?thesis
      using none a
      by (simp add: Some None search_of_def hash_of_def parse_query_fragment_def
          wf_query_encode sch del: dropWhile_eq_Nil_conv)
  next
    case fSome: (Some b)
    with f have b: "wf_fragment b" "b \<noteq> []"
      by simp_all
    then have h: "hash_of (Some b) = CHR ''#'' # b"
      by (simp add: hash_of_def)
    show ?thesis
      using drop [unfolded fSome h] take [unfolded fSome h] a b
      by (simp add: Some fSome search_of_def parse_query_fragment_def h wf_query_encode sch
          wf_fragment_encode)
  qed
qed

lemma c0_or_space_iff: "is_c0_or_space c \<longleftrightarrow> (of_char c :: nat) \<le> 31 \<or> c = CHR '' ''"
proof -
  have "(of_char c :: nat) = 32 \<longleftrightarrow> c = CHR '' ''"
    using of_char_eq_iff [of c "CHR '' ''", where ?'a = nat] by simp
  moreover have "(of_char c :: nat) \<le> 32 \<longleftrightarrow> (of_char c :: nat) \<le> 31 \<or> (of_char c :: nat) = 32"
    by arith
  ultimately show ?thesis
    by (simp add: is_c0_or_space_def)
qed

lemma path_set_clean: "\<not> path_set c \<Longrightarrow> \<not> is_c0_or_space c \<and> not_query_hash c"
  by (simp add: c0_or_space_iff path_set_def query_set_def c0_control_set_def not_query_hash_def)

lemma query_set_clean: "\<not> special_query_set c \<Longrightarrow> \<not> is_c0_or_space c"
  by (simp add: c0_or_space_iff special_query_set_def query_set_def c0_control_set_def)

lemma fragment_set_clean: "\<not> fragment_set c \<Longrightarrow> \<not> is_c0_or_space c"
  by (simp add: c0_or_space_iff fragment_set_def c0_control_set_def)

lemma wf_segment_clean:
  "wf_segment s \<Longrightarrow> list_all (\<lambda>c. \<not> is_c0_or_space c \<and> not_query_hash c) s"
  using path_set_clean by (simp add: wf_segment_def list_all_iff)

lemma wf_query_clean: "wf_query q \<Longrightarrow> list_all (\<lambda>c. \<not> is_c0_or_space c) q"
  using query_set_clean by (simp add: wf_query_def list_all_iff)

lemma wf_fragment_clean: "wf_fragment q \<Longrightarrow> list_all (\<lambda>c. \<not> is_c0_or_space c) q"
  using fragment_set_clean by (simp add: wf_fragment_def list_all_iff)

lemma list_all_join:
  assumes "P sep" "list_all P seg" "list_all (list_all P) segs"
  shows "list_all P (seg @ concat (map ((#) sep) segs))"
proof -
  have "list_all P (concat (map ((#) sep) segs))"
    using assms(1,3) by (induction segs) simp_all
  with assms(2) show ?thesis
    by simp
qed

lemma path_chars:
  assumes "list_all wf_segment (seg # segs)"
  shows "list_all (\<lambda>c. \<not> is_c0_or_space c \<and> not_query_hash c)
     (seg @ concat (map ((#) CHR ''/'') segs))"
proof (rule list_all_join)
  show "\<not> is_c0_or_space CHR ''/'' \<and> not_query_hash CHR ''/''"
    by (simp add: is_c0_or_space_def not_query_hash_def)
  show "list_all (\<lambda>c. \<not> is_c0_or_space c \<and> not_query_hash c) seg"
    using assms by (simp add: wf_segment_clean)
  show "list_all (list_all (\<lambda>c. \<not> is_c0_or_space c \<and> not_query_hash c)) segs"
    using assms wf_segment_clean by (auto simp: list_all_iff)
qed

lemma search_of_clean:
  "(case q of None \<Rightarrow> True | Some a \<Rightarrow> wf_query a) \<Longrightarrow>
   list_all (\<lambda>c. \<not> is_c0_or_space c) (search_of q)"
  by (auto simp: search_of_def is_c0_or_space_def dest: wf_query_clean split: option.splits)

lemma hash_of_clean:
  "(case f of None \<Rightarrow> True | Some a \<Rightarrow> wf_fragment a) \<Longrightarrow>
   list_all (\<lambda>c. \<not> is_c0_or_space c) (hash_of f)"
  by (auto simp: hash_of_def is_c0_or_space_def dest: wf_fragment_clean split: option.splits)

lemma search_hash_stop:
  "search_of q @ hash_of f = [] \<or> \<not> not_query_hash (hd (search_of q @ hash_of f))"
  by (simp add: search_of_def hash_of_def not_query_hash_def split: option.splits)

lemma from_path_state_read_back:
  assumes segs: "list_all wf_segment (seg # segs)"
    and q: "case q of None \<Rightarrow> True | Some a \<Rightarrow> wf_query a \<and> a \<noteq> []"
    and f: "case f of None \<Rightarrow> True | Some a \<Rightarrow> wf_fragment a \<and> a \<noteq> []"
  shows "from_path_state phony_start
      ((seg @ concat (map ((#) CHR ''/'') segs)) @ search_of q @ hash_of f) =
     phony_start\<lparr>path := Segments (seg # segs), query := q, fragment := f\<rparr>"
proof -
  let ?p = "seg @ concat (map ((#) CHR ''/'') segs)"
  have p: "list_all not_query_hash ?p"
    using path_chars [OF segs] by (simp add: list_all_iff)
  have take: "takeWhile not_query_hash (?p @ search_of q @ hash_of f) = ?p"
    using p search_hash_stop by (rule takeWhile_append_stop)
  have drop: "dropWhile not_query_hash (?p @ search_of q @ hash_of f) = search_of q @ hash_of f"
    using p search_hash_stop by (rule dropWhile_append_stop)
  have path: "parse_path ''https'' ?p = seg # segs"
    using segs by (intro parse_path_join) simp_all
  have "parse_query_fragment (phony_start\<lparr>path := Segments (seg # segs)\<rparr>)
      (search_of q @ hash_of f) =
      phony_start\<lparr>path := Segments (seg # segs)\<rparr>\<lparr>query := q, fragment := f\<rparr>"
    using q f by (intro parse_query_fragment_search_hash) (simp_all add: phony_start_def blank_url_def)
  then show ?thesis
    unfolding from_path_state_def take drop
    by (simp add: phony_start_def blank_url_def path)
qed

lemma toString_shape:
  assumes "path x = Segments (seg # segs)"
  shows "URLPath_toString x =
     CHR ''/'' # (seg @ concat (map ((#) CHR ''/'') segs)) @ search_of (query x) @ hash_of (fragment x)"
  using assms
  by (simp add: URLPath_toString_def pathname_def serialize_path_def search_def hash_def
      search_of_def hash_of_def)

subsection \<open>The query string of a list of pairs\<close>

lemma hex_upper_mem: "n < 16 \<Longrightarrow> hex_upper n \<in> set ''0123456789ABCDEF''"
  by (simp add: hex_upper_def del: set_simps)

lemma hex_val_hex_upper: "n < 16 \<Longrightarrow> hex_val (hex_upper n) = Some n"
proof -
  have "\<forall>n \<in> set [0, 1, 2, 3, 4, 5, 6, 7, 8, 9, 10, 11, 12, 13, 14, 15].
      hex_val (hex_upper n) = Some n"
    by (simp add: hex_upper_def hex_val_def is_digit_def)
  moreover assume "n < 16"
  then have "n \<in> set [0, 1, 2, 3, 4, 5, 6, 7, 8, 9, 10, 11, 12, 13, 14, 15]"
    by simp arith
  ultimately show ?thesis
    by blast
qed

lemma tab_newline_c0: "is_tab_newline c \<Longrightarrow> (of_char c :: nat) \<le> 31"
  by (auto simp: is_tab_newline_def)

lemma ue_char_hex: "n < 16 \<Longrightarrow> ue_char (hex_upper n) \<and> hex_upper n \<noteq> CHR ''+''"
proof -
  assume "n < 16"
  then have "hex_upper n \<in> set ''0123456789ABCDEF''"
    by (rule hex_upper_mem)
  moreover have "\<forall>c \<in> set ''0123456789ABCDEF''. ue_char c \<and> c \<noteq> CHR ''+''"
    by (simp add: ue_char_def is_tab_newline_def special_query_set_def query_set_def
        c0_control_set_def)
  ultimately show ?thesis
    by blast
qed

lemma of_char_div_mod: "(of_char (c::char) :: nat) div 16 < 16" "(of_char (c::char) :: nat) mod 16 < 16"
  by (simp_all add: less_mult_imp_div_less)

lemma ue_char_unencoded:
  assumes "\<not> urlencoded_set c"
  shows "ue_char c \<and> c \<noteq> CHR ''+'' \<and> c \<noteq> CHR ''%''"
proof -
  from assms have sets: "\<not> special_query_set c" "\<not> query_set c" "\<not> c0_control_set c"
    and chars: "c \<noteq> CHR ''?''" "c \<noteq> CHR ''=''" "c \<noteq> CHR ''&''" "c \<noteq> CHR ''+''" "c \<noteq> CHR ''%''"
    by (simp_all add: urlencoded_set_def component_set_def userinfo_set_def path_set_def
        query_set_def special_query_set_def)
  from sets(3) have "\<not> is_tab_newline c"
    using tab_newline_c0 [of c] by (auto simp: c0_control_set_def)
  with sets chars show ?thesis
    by (simp add: ue_char_def)
qed

lemma list_all_urlencoded_string: "list_all ue_char (urlencoded_string k)"
proof (induction k)
  case Nil
  show ?case by (simp add: urlencoded_string_def)
next
  case (Cons c k)
  have "list_all ue_char (urlencoded_char c)"
    using ue_char_unencoded [of c] ue_char_hex [OF of_char_div_mod(1) [of c]]
      ue_char_hex [OF of_char_div_mod(2) [of c]]
    by (simp add: urlencoded_char_def percent_encode_char_def)
      (simp add: ue_char_def is_tab_newline_def special_query_set_def query_set_def
        c0_control_set_def)
  with Cons show ?case
    by (simp add: urlencoded_string_def)
qed

lemma percent_decode_Cons: "c \<noteq> CHR ''%'' \<Longrightarrow> percent_decode (c # s) = c # percent_decode s"
proof (cases s)
  case Nil
  then show ?thesis by simp
next
  case (Cons a t)
  assume "c \<noteq> CHR ''%''"
  then show ?thesis
    by (cases t) (simp_all add: Cons)
qed

lemma char_of_div_mod: "char_of (16 * ((of_char c :: nat) div 16) + (of_char c :: nat) mod 16) = c"
  by simp

lemma decode_urlencoded_char:
  "percent_decode (plus_to_space (urlencoded_char c @ r)) = c # percent_decode (plus_to_space r)"
proof (cases "c = CHR '' ''")
  case True
  then show ?thesis
    by (simp add: urlencoded_char_def plus_to_space_def percent_decode_Cons)
next
  case False
  show ?thesis
  proof (cases "urlencoded_set c")
    case plain: False
    with False ue_char_unencoded [of c] show ?thesis
      by (simp add: urlencoded_char_def percent_encode_char_def plus_to_space_def
          percent_decode_Cons)
  next
    case True
    let ?h = "hex_upper ((of_char c :: nat) div 16)" and ?l = "hex_upper ((of_char c :: nat) mod 16)"
    have h: "hex_val ?h = Some ((of_char c :: nat) div 16)" "?h \<noteq> CHR ''+''"
      using hex_val_hex_upper [OF of_char_div_mod(1) [of c]] ue_char_hex [OF of_char_div_mod(1) [of c]]
      by simp_all
    have l: "hex_val ?l = Some ((of_char c :: nat) mod 16)" "?l \<noteq> CHR ''+''"
      using hex_val_hex_upper [OF of_char_div_mod(2) [of c]] ue_char_hex [OF of_char_div_mod(2) [of c]]
      by simp_all
    have "plus_to_space (urlencoded_char c @ r) = CHR ''%'' # ?h # ?l # plus_to_space r"
      using False True h(2) l(2)
      by (simp add: urlencoded_char_def percent_encode_char_def plus_to_space_def)
    then show ?thesis
      using h(1) l(1) by (simp add: char_of_div_mod)
  qed
qed

lemma decode_urlencoded_string:
  "percent_decode (plus_to_space (urlencoded_string k @ r)) = k @ percent_decode (plus_to_space r)"
  by (induction k) (simp_all add: urlencoded_string_def decode_urlencoded_char)

lemma percent_decode_plus_nil: "percent_decode (plus_to_space []) = []"
  by (simp add: plus_to_space_def)

lemma parse_pair_encoded:
  "parse_pair (urlencoded_string k @ CHR ''='' # urlencoded_string v) = (k, v)"
proof -
  have noeq: "list_all (\<lambda>c. c \<noteq> CHR ''='') (urlencoded_string k)"
    using list_all_urlencoded_string [of k] by (simp add: list_all_iff ue_char_def)
  have t: "takeWhile (\<lambda>c. c \<noteq> CHR ''='') (urlencoded_string k @ CHR ''='' # urlencoded_string v) =
      urlencoded_string k"
    using noeq by (intro takeWhile_append_stop) simp_all
  have d: "dropWhile (\<lambda>c. c \<noteq> CHR ''='') (urlencoded_string k @ CHR ''='' # urlencoded_string v) =
      CHR ''='' # urlencoded_string v"
    using noeq by (intro dropWhile_append_stop) simp_all
  show ?thesis
    using decode_urlencoded_string [of k "[]"] decode_urlencoded_string [of v "[]"]
    by (simp add: parse_pair_def t d percent_decode_plus_nil)
qed

lemma Params_toString_pairs: "Params_toString ps = join_amp (map pair_string ps)"
proof -
  have "(\<lambda>(k, v). urlencoded_string k @ ''='' @ urlencoded_string v) = pair_string"
    by (auto simp: pair_string_def fun_eq_iff)
  then show ?thesis
    by (simp only: Params_toString_def)
qed

lemma pair_string_chars:
  "pair_string p \<noteq> []" "list_all (\<lambda>c. c \<noteq> CHR ''&'') (pair_string p)"
  using list_all_urlencoded_string [of "fst p"] list_all_urlencoded_string [of "snd p"]
  by (auto simp: pair_string_def list_all_iff ue_char_def)

lemma splitBy_join_amp:
  "items \<noteq> [] \<Longrightarrow> list_all (list_all (\<lambda>c. c \<noteq> CHR ''&'')) items \<Longrightarrow>
   splitBy (\<lambda>c. c = CHR ''&'') (join_amp items) = items"
proof (induction items rule: join_amp.induct)
  case 1
  then show ?case by simp
next
  case (2 x)
  then show ?case by (simp add: splitBy_no_sep)
next
  case (3 x y ys)
  then show ?case
    using splitBy_append_sep [of "\<lambda>c. c = CHR ''&''" x "CHR ''&''" "join_amp (y # ys)"]
    by simp
qed

lemma urlencoded_parse_toString: "urlencoded_parse (Params_toString ps) = ps"
proof (cases ps)
  case Nil
  then show ?thesis
    by (simp add: Params_toString_def urlencoded_parse_def)
next
  case (Cons p ps')
  have "splitBy (\<lambda>c. c = CHR ''&'') (join_amp (map pair_string ps)) = map pair_string ps"
    using Cons pair_string_chars(2) by (intro splitBy_join_amp) (simp_all add: list_all_iff)
  moreover have "filter (\<lambda>b. b \<noteq> []) (map pair_string ps) = map pair_string ps"
    using pair_string_chars(1) by (simp add: filter_id_conv)
  moreover have "map parse_pair (map pair_string ps) = ps"
    using parse_pair_encoded by (simp add: pair_string_def map_idI)
  ultimately show ?thesis
    by (simp add: urlencoded_parse_def Params_toString_pairs)
qed

subsection \<open>Setters\<close>

lemma set_pathname_keeps:
  "scheme (set_pathname v u) = scheme u" "username (set_pathname v u) = username u"
  "password (set_pathname v u) = password u" "host (set_pathname v u) = host u"
  "port (set_pathname v u) = port u" "query (set_pathname v u) = query u"
  "fragment (set_pathname v u) = fragment u"
  by (simp_all add: set_pathname_def Let_def split: url_path.splits list.splits)

lemma set_search_keeps:
  "scheme (set_search v u) = scheme u" "username (set_search v u) = username u"
  "password (set_search v u) = password u" "host (set_search v u) = host u"
  "port (set_search v u) = port u" "path (set_search v u) = path u"
  "fragment (set_search v u) = fragment u"
  by (simp_all add: set_search_def)

lemma set_hash_keeps:
  "scheme (set_hash v u) = scheme u" "username (set_hash v u) = username u"
  "password (set_hash v u) = password u" "host (set_hash v u) = host u"
  "port (set_hash v u) = port u" "path (set_hash v u) = path u"
  "query (set_hash v u) = query u"
  by (simp_all add: set_hash_def)

lemma set_pathname_opaque: "path u = Opaque p \<Longrightarrow> set_pathname v u = u"
  by (simp add: set_pathname_def)

lemma join_amp_chars:
  "list_all (list_all P) items \<Longrightarrow> P CHR ''&'' \<Longrightarrow> list_all P (join_amp items)"
  by (induction items rule: join_amp.induct) simp_all

lemma join_amp_nonempty: "x \<noteq> [] \<Longrightarrow> join_amp (x # xs) \<noteq> []"
  by (cases xs) simp_all

lemma Params_toString_chars: "list_all query_safe (Params_toString ps)"
proof -
  have "list_all query_safe (pair_string p)" for p
    using list_all_urlencoded_string [of "fst p"] list_all_urlencoded_string [of "snd p"]
    by (auto simp: pair_string_def list_all_iff ue_char_def query_safe_def is_tab_newline_def
        special_query_set_def query_set_def c0_control_set_def)
  then have "list_all (list_all query_safe) (map pair_string ps)"
    by (simp add: list_all_iff)
  moreover have "query_safe CHR ''&''"
    by (simp add: query_safe_def is_tab_newline_def special_query_set_def query_set_def
        c0_control_set_def)
  ultimately show ?thesis
    unfolding Params_toString_pairs by (rule join_amp_chars)
qed

lemma query_safe_string:
  assumes "list_all query_safe s"
  shows "query_encode sch (remove_tab_newline (case s of [] \<Rightarrow> [] | c # cs \<Rightarrow> if c = CHR ''?'' then cs else s)) = s"
proof -
  have "(case s of [] \<Rightarrow> [] | c # cs \<Rightarrow> if c = CHR ''?'' then cs else s) = s"
    using assms by (cases s) (simp_all add: query_safe_def)
  moreover have "remove_tab_newline s = s"
    using assms by (simp add: remove_tab_newline_def filter_id_conv list_all_iff query_safe_def)
  moreover have "percent_encode special_query_set s = s" "percent_encode query_set s = s"
    using assms by (simp_all add: percent_encode_id list_all_iff query_safe_def)
  ultimately show ?thesis
    by (simp add: query_encode_def)
qed

lemma searchParams_set_search: "searchParams (set_search (Params_toString ps) u) = ps"
proof (cases "Params_toString ps = []")
  case True
  have "ps = []"
  proof (rule ccontr)
    assume "ps \<noteq> []"
    then obtain p ps' where "ps = p # ps'"
      by (cases ps) simp_all
    then have "Params_toString ps \<noteq> []"
      using pair_string_chars(1) [of p] by (simp add: Params_toString_pairs join_amp_nonempty)
    with True show False
      by simp
  qed
  with True show ?thesis
    by (simp add: set_search_def searchParams_def)
next
  case False
  then show ?thesis
    using query_safe_string [OF Params_toString_chars, of "scheme u" ps]
    by (simp add: set_search_def searchParams_def urlencoded_parse_toString)
qed

lemma hash_set_hash:
  assumes "case fragment x of None \<Rightarrow> True | Some f \<Rightarrow> wf_fragment f"
  shows "hash (set_hash (hash x) u) = hash x"
proof (cases "hash x = []")
  case True
  then show ?thesis
    by (simp add: set_hash_def hash_def)
next
  case False
  then obtain f where f: "fragment x = Some f" "f \<noteq> []" "hash x = CHR ''#'' # f"
    by (auto simp: hash_def split: option.splits if_splits)
  with assms have wf: "wf_fragment f"
    by simp
  then have "remove_tab_newline f = f"
    using wf_fragment_clean [OF wf] by (simp add: remove_tab_newline_id)
  then show ?thesis
    using f wf by (simp add: set_hash_def hash_def wf_fragment_encode)
qed

lemma pathname_set_pathname:
  assumes x: "path x = Segments (seg # segs)" "list_all wf_segment (seg # segs)"
    and u: "path u = Segments p" "scheme u \<noteq> ''file''"
  shows "pathname (set_pathname (pathname x) u) = pathname x"
proof -
  let ?P = "seg @ concat (map ((#) CHR ''/'') segs)"
  have px: "pathname x = CHR ''/'' # ?P"
    using x(1) by (simp add: pathname_def serialize_path_def)
  have "list_all (\<lambda>c. \<not> is_c0_or_space c) (CHR ''/'' # ?P)"
    using path_chars [OF x(2)] by (simp add: list_all_iff is_c0_or_space_def)
  then have rm: "remove_tab_newline (CHR ''/'' # ?P) = CHR ''/'' # ?P"
    by (rule remove_tab_newline_id)
  have "parse_path (scheme u) ?P = seg # segs"
    using u(2) x(2) by (rule parse_path_join)
  then have "path (set_pathname (pathname x) u) = Segments (seg # segs)"
    using u(1) by (simp add: set_pathname_def px rm Let_def)
  then show ?thesis
    using x(1) by (simp add: pathname_def)
qed

subsection \<open>Evaluation\<close>

lemmas char_class_defs = is_alpha_def is_lower_def is_upper_def is_digit_def lower_char_def
  scheme_char_def is_c0_or_space_def is_tab_newline_def is_slash_def is_dot_def not_at_def
  not_colon_def not_hash_def not_query_hash_def

lemmas parse_defs = url_parse_def split_scheme_def strip_c0_space_def remove_tab_newline_def
  is_special_def from_authority_state_def authority_end_def parse_host_port_def host_parse_def
  plain_ascii_domain_def forbidden_domain_def forbidden_host_def ends_in_number_def
  parse_port_def from_path_start_state_def from_path_state_def parse_query_fragment_def
  parse_path_def is_path_sep_def percent_encode_def percent_encode_char_def
  path_set_def query_set_def special_query_set_def fragment_set_def c0_control_set_def
  userinfo_set_def single_dot_def double_dot_def push_segment_def shorten_def query_encode_def
  is_hex_digit_def hex_val_def from_opaque_path_state_def opaque_encode_def blank_url_def
  strip_trailing_def phony_start_def

lemmas wf_defs = urlpath_invariant_def wf_segment_def wf_query_def wf_fragment_def wf_userinfo_def

lemma fromString_slash:
  "URLPath_fromString ext (CHR ''/'' # s) =
     Inr (from_path_state phony_start (remove_tab_newline (strip_trailing s)))"
proof -
  have "origin phonyBase @ CHR ''/'' # s = ''https://urlpath.fp-ts-std.samhh.com/'' @ s"
    by (simp add: origin_phonyBase)
  then have "url_parse ext (origin phonyBase @ CHR ''/'' # s) =
      Some (from_path_state phony_start (remove_tab_newline (strip_trailing s)))"
    by (simp only: url_parse_phony_slash)
  then show ?thesis
    by (simp add: URLPath_fromString_def hasPhonyBase_def origin_from_path_state origin_phony_start)
qed

lemma fromPathname_foo:
  "fromPathname ''/foo'' = \<lparr>scheme = ''https'', username = [], password = [],
          host = Some ''urlpath.fp-ts-std.samhh.com'', port = None, path = Segments [''foo''],
          query = None, fragment = None\<rparr>"
  by (simp add: fromPathname_def clone_def set_pathname_def phonyBase_def parse_defs
      char_class_defs Let_def)

subsection \<open>The constructors establish the invariant\<close>

lemma percent_encode_all:
  assumes "\<And>c. c \<in> set s \<Longrightarrow> \<not> S c \<Longrightarrow> R c" "R CHR ''%''"
    "\<And>c. c \<in> set ''0123456789ABCDEF'' \<Longrightarrow> R c"
  shows "list_all R (percent_encode S s)"
proof -
  have hex: "R (hex_upper n)" if "n < 16" for n
    using assms(3) hex_upper_mem [OF that] by blast
  have "list_all R (percent_encode_char S c)" if "c \<in> set s" for c
    using that assms(1,2) hex [OF of_char_div_mod(1) [of c]] hex [OF of_char_div_mod(2) [of c]]
    by (simp add: percent_encode_char_def)
  then show ?thesis
    by (induction s) (simp_all add: percent_encode_def)
qed

lemma splitBy_no_seps: "list_all (list_all (\<lambda>c. \<not> P c)) (splitBy P s)"
proof (induction s)
  case Nil
  show ?case by simp
next
  case (Cons c s)
  then show ?case
    using splitBy_nonempty [of P s]
    by (cases "splitBy P s") (simp_all add: Let_def)
qed

lemma segment_chars_encode:
  assumes "list_all (\<lambda>c. \<not> is_path_sep ''https'' c) seg"
  shows "segment_chars (percent_encode path_set seg)"
  unfolding segment_chars_def
proof (rule percent_encode_all)
  fix c
  assume "c \<in> set seg" "\<not> path_set c"
  with assms show "\<not> path_set c \<and> c \<noteq> CHR ''/'' \<and> c \<noteq> CHR 0x5C"
    by (auto simp: list_all_iff is_path_sep_def is_special_def)
next
  show "\<not> path_set CHR ''%'' \<and> CHR ''%'' \<noteq> CHR ''/'' \<and> CHR ''%'' \<noteq> CHR 0x5C"
    by (simp add: path_set_def query_set_def c0_control_set_def)
next
  fix c
  assume "c \<in> set ''0123456789ABCDEF''"
  then show "\<not> path_set c \<and> c \<noteq> CHR ''/'' \<and> c \<noteq> CHR 0x5C"
    by (auto simp: path_set_def query_set_def c0_control_set_def)
qed

lemma wf_segment_Nil: "wf_segment []"
  by (simp add: wf_segment_def single_dot_def double_dot_def)

lemma shorten_https: "shorten ''https'' p = butlast p"
  by (simp add: shorten_def)

lemma push_segment_https: "push_segment ''https'' p seg = p @ [seg]"
  by (simp add: push_segment_def)

lemma list_all_butlast: "list_all P p \<Longrightarrow> list_all P (butlast p)"
  by (auto simp: list_all_iff dest: in_set_butlastD)

lemma path_step_wf:
  assumes "list_all wf_segment p" "segment_chars seg"
  shows "list_all wf_segment (if double_dot seg then shorten ''https'' p
        else if single_dot seg then p else push_segment ''https'' p seg)"
proof (cases "double_dot seg")
  case True
  with assms(1) show ?thesis
    by (simp add: shorten_https list_all_butlast)
next
  case False
  show ?thesis
  proof (cases "single_dot seg")
    case True
    with False assms(1) show ?thesis by simp
  next
    case single: False
    with False assms(2) have "wf_segment seg"
      by (simp add: wf_segment_def segment_chars_def)
    with False single assms(1) show ?thesis
      by (simp add: push_segment_https)
  qed
qed

lemma path_last_wf:
  assumes "list_all wf_segment p" "segment_chars seg"
  shows "list_all wf_segment (path_state ''https'' p [seg]) \<and> path_state ''https'' p [seg] \<noteq> []"
proof (cases "double_dot seg")
  case True
  with assms(1) show ?thesis
    by (simp add: shorten_https list_all_butlast wf_segment_Nil)
next
  case False
  show ?thesis
  proof (cases "single_dot seg")
    case True
    with False assms(1) show ?thesis by (simp add: wf_segment_Nil)
  next
    case single: False
    with False assms(2) have "wf_segment seg"
      by (simp add: wf_segment_def segment_chars_def)
    with False single assms(1) show ?thesis
      by (simp add: push_segment_https)
  qed
qed

lemma path_state_wf:
  "list_all wf_segment p \<Longrightarrow> list_all segment_chars segs \<Longrightarrow> segs \<noteq> [] \<Longrightarrow>
   list_all wf_segment (path_state ''https'' p segs) \<and> path_state ''https'' p segs \<noteq> []"
proof (induction segs arbitrary: p)
  case Nil
  then show ?case by simp
next
  case (Cons seg segs)
  show ?case
  proof (cases segs)
    case Nil
    with Cons.prems path_last_wf [of p seg] show ?thesis
      by simp
  next
    case (Cons s' segs')
    have step: "list_all wf_segment (if double_dot seg then shorten ''https'' p
        else if single_dot seg then p else push_segment ''https'' p seg)"
      using Cons.prems by (intro path_step_wf) simp_all
    have "path_state ''https'' p (seg # segs) = path_state ''https''
        (if double_dot seg then shorten ''https'' p
         else if single_dot seg then p else push_segment ''https'' p seg) segs"
      by (simp add: Cons)
    moreover have "list_all segment_chars segs" "segs \<noteq> []"
      using Cons.prems(2) Cons by simp_all
    ultimately show ?thesis
      using Cons.IH [OF step] by simp
  qed
qed

lemma parse_path_wf:
  "list_all wf_segment (parse_path ''https'' s) \<and> parse_path ''https'' s \<noteq> []"
proof -
  have "list_all segment_chars (map (percent_encode path_set) (splitBy (is_path_sep ''https'') s))"
    using splitBy_no_seps [of "is_path_sep ''https''" s] segment_chars_encode
    by (simp add: list_all_iff)
  moreover have "map (percent_encode path_set) (splitBy (is_path_sep ''https'') s) \<noteq> []"
    by (simp add: splitBy_nonempty)
  ultimately show ?thesis
    unfolding parse_path_def by (intro path_state_wf) simp_all
qed

lemma wf_query_encode_out: "wf_query (query_encode ''https'' q)"
  unfolding wf_query_def query_encode_def
  by (simp add: is_special_def, rule percent_encode_all)
    (auto simp: special_query_set_def query_set_def c0_control_set_def)

lemma wf_fragment_encode_out: "wf_fragment (percent_encode fragment_set f)"
  unfolding wf_fragment_def
  by (rule percent_encode_all) (auto simp: fragment_set_def c0_control_set_def)

lemma wf_userinfo_encode_out: "wf_userinfo (percent_encode userinfo_set s)"
  unfolding wf_userinfo_def
  by (rule percent_encode_all)
    (auto simp: userinfo_set_def path_set_def query_set_def c0_control_set_def)

lemma parse_query_fragment_wf:
  assumes "scheme u = ''https''" "query u = None" "fragment u = None"
  shows "(case query (parse_query_fragment u s) of None \<Rightarrow> True | Some q \<Rightarrow> wf_query q) \<and>
     (case fragment (parse_query_fragment u s) of None \<Rightarrow> True | Some f \<Rightarrow> wf_fragment f)"
  using assms wf_query_encode_out wf_fragment_encode_out
  by (simp add: parse_query_fragment_def split: list.splits)

lemma from_path_state_wf:
  assumes "scheme u = ''https''" "wf_userinfo (username u)" "wf_userinfo (password u)"
    "query u = None" "fragment u = None"
  shows "https_wf (from_path_state u s)"
proof -
  let ?v = "u\<lparr>path := Segments (parse_path (scheme u) (takeWhile not_query_hash s))\<rparr>"
  have "scheme ?v = ''https''" "query ?v = None" "fragment ?v = None"
    using assms by simp_all
  then have "(case query (parse_query_fragment ?v (dropWhile not_query_hash s)) of
        None \<Rightarrow> True | Some q \<Rightarrow> wf_query q) \<and>
     (case fragment (parse_query_fragment ?v (dropWhile not_query_hash s)) of
        None \<Rightarrow> True | Some f \<Rightarrow> wf_fragment f)"
    by (rule parse_query_fragment_wf)
  then show ?thesis
    using assms parse_path_wf [of "takeWhile not_query_hash s"]
    by (simp add: https_wf_def from_path_state_def parse_query_fragment_keeps)
qed

lemma from_path_start_state_wf:
  assumes "scheme u = ''https''" "wf_userinfo (username u)" "wf_userinfo (password u)"
    "query u = None" "fragment u = None"
  shows "https_wf (from_path_start_state u s) \<and> host (from_path_start_state u s) = host u"
  using assms
  by (simp add: from_path_start_state_def is_special_def from_path_state_wf from_path_state_keeps)

lemma from_authority_state_wf:
  assumes "from_authority_state ext ''https'' s = Some u"
  shows "https_wf u \<and> host u \<noteq> None"
proof -
  from assms obtain u0 rest where u: "u = from_path_start_state u0 rest"
    and u0: "scheme u0 = ''https''" "wf_userinfo (username u0)" "wf_userinfo (password u0)"
      "query u0 = None" "fragment u0 = None" "host u0 \<noteq> None"
    by (fastforce simp: from_authority_state_def Let_def wf_userinfo_encode_out
        split: if_splits option.splits)
  then show ?thesis
    using from_path_start_state_wf [of u0 rest] by simp
qed

lemma phony0_strip:
  "strip_c0_space (''https://urlpath.fp-ts-std.samhh.com'' @ s) =
      ''https://urlpath.fp-ts-std.samhh.com'' @ strip_trailing s"
  using strip_c0_space_prefix [of "CHR ''h''" "CHR ''m''" "''ttps://urlpath.fp-ts-std.samhh.co''" s]
  by (simp add: is_c0_or_space_def)

lemma phony0_split:
  "split_scheme (''https://urlpath.fp-ts-std.samhh.com'' @ t) =
      Some (''https'', ''//urlpath.fp-ts-std.samhh.com'' @ t)"
  by (simp add: split_scheme_def is_alpha_def is_lower_def is_upper_def scheme_char_def
        is_digit_def lower_char_def)

lemma phony0_rm:
  "remove_tab_newline (''https://urlpath.fp-ts-std.samhh.com'' @ t) =
      ''https://urlpath.fp-ts-std.samhh.com'' @ remove_tab_newline t"
  by (simp add: remove_tab_newline_def is_tab_newline_def)

lemma url_parse_phony0:
  "url_parse ext (''https://urlpath.fp-ts-std.samhh.com'' @ s) =
     from_authority_state ext ''https''
       (dropWhile is_slash (''//urlpath.fp-ts-std.samhh.com'' @ remove_tab_newline (strip_trailing s)))"
  by (simp only: url_parse_def phony0_strip phony0_rm phony0_split option.case prod.case)
     (simp add: is_special_def)

lemma no_colon_in_host: "CHR '':'' \<notin> set ''urlpath.fp-ts-std.samhh.com''"
  by simp

lemma hasPhonyBase_https:
  assumes "hasPhonyBase u" "scheme u = ''https''" "host u \<noteq> None"
  shows "host u = Some ''urlpath.fp-ts-std.samhh.com'' \<and> port u = None"
proof -
  from assms(3) obtain h where h: "host u = Some h"
    by blast
  from assms(1,2) h have eq: "h @ (case port u of None \<Rightarrow> [] | Some p \<Rightarrow> '':'' @ show_nat p) =
      ''urlpath.fp-ts-std.samhh.com''"
    by (simp add: hasPhonyBase_def origin_phonyBase) (simp add: origin_def)
  have "port u = None"
  proof (cases "port u")
    case None
    then show ?thesis .
  next
    case (Some p)
    with eq have "CHR '':'' \<in> set ''urlpath.fp-ts-std.samhh.com''"
      by (metis append_Cons in_set_conv_decomp option.simps(5))
    then show ?thesis
      by simp
  qed
  with eq h show ?thesis
    by simp
qed

lemma fromString_invariant:
  assumes "URLPath_fromString ext s = Inr u"
  shows "urlpath_invariant u"
proof (cases "Option.bind (url_parse ext (origin phonyBase @ s))
      (\<lambda>u. if hasPhonyBase u then Some u else None)")
  case None
  have "url_parse ext (origin phonyBase @ ''/'' @ s) =
      Some (from_path_state phony_start (remove_tab_newline (strip_trailing s)))"
    using url_parse_phony_slash [of ext s] by (simp add: origin_phonyBase)
  with None assms have u: "u = from_path_state phony_start (remove_tab_newline (strip_trailing s))"
    by (simp add: URLPath_fromString_def)
  have "https_wf u"
    unfolding u
    by (rule from_path_state_wf) (simp_all add: phony_start_def blank_url_def wf_userinfo_def)
  then show ?thesis
    by (simp add: urlpath_invariant_def https_wf_def u from_path_state_keeps phony_start_def
        blank_url_def)
next
  case (Some v)
  then have v: "url_parse ext (origin phonyBase @ s) = Some v" "hasPhonyBase v"
    by (auto simp: bind_eq_Some_conv split: if_splits)
  with Some assms have "u = v"
    by (simp add: URLPath_fromString_def)
  from v(1) have "https_wf v \<and> host v \<noteq> None"
    unfolding origin_phonyBase url_parse_phony0 by (rule from_authority_state_wf)
  with v(2) hasPhonyBase_https [of v] \<open>u = v\<close> show ?thesis
    by (simp add: urlpath_invariant_def https_wf_def)
qed

lemma fromPathname_invariant: "urlpath_invariant (fromPathname s)"
  using parse_path_wf
  by (simp add: fromPathname_def clone_def set_pathname_def phonyBase_def is_special_def Let_def
      urlpath_invariant_def wf_userinfo_def)

lemma setPathname_invariant:
  assumes "urlpath_invariant x"
  shows "urlpath_invariant (setPathname v x)"
proof -
  from assms obtain segs where "path x = Segments segs"
    by (cases "path x") (simp_all add: urlpath_invariant_def)
  then show ?thesis
    using assms parse_path_wf
    by (simp add: setPathname_def URL_setPathname_def clone_def set_pathname_def is_special_def
        Let_def urlpath_invariant_def)
qed

lemma setParams_invariant:
  assumes "urlpath_invariant x"
  shows "urlpath_invariant (setParams ps x)"
  using assms wf_query_encode_out
  by (simp add: setParams_def URL_setParams_def clone_def set_search_def urlpath_invariant_def)

lemma setHash_invariant:
  assumes "urlpath_invariant x"
  shows "urlpath_invariant (setHash h x)"
  using assms wf_fragment_encode_out
  by (simp add: setHash_def URL_setHash_def clone_def set_hash_def urlpath_invariant_def)

lemma ensurePhonyBase_invariant: "urlpath_invariant (ensurePhonyBase u)"
proof -
  have "ensurePhonyBase u =
      setHash (hash u) (setParams (searchParams u) (fromPathname (pathname u)))"
    by (simp add: ensurePhonyBase_def setHash_def setParams_def URL_setHash_def
        URL_setParams_def fromPathname_def clone_def)
  then show ?thesis
    by (simp add: setHash_invariant setParams_invariant fromPathname_invariant)
qed

section \<open>Theorems on URLPath\<close>

text \<open>
  C2. \<open>URLPath.fromString(s)\<close> never fails, whatever the string \<open>s\<close> and whatever the
  platform's host parser does: it returns a value whose origin is the origin of
  \<open>phonyBase\<close>. When the URL of \<open>phonyBase.origin + s\<close> does not parse or has another
  origin, the result is the URL of \<open>phonyBase.origin + "/" + s\<close>, which always parses;
  otherwise the result is the URL of \<open>phonyBase.origin + s\<close>.
\<close>

theorem C2_fromString_total:
  "(\<exists>u. URLPath_fromString ext s = Inr u \<and> hasPhonyBase u \<and>
        origin u = ''https://urlpath.fp-ts-std.samhh.com'') \<and>
   ((\<forall>v. url_parse ext (origin phonyBase @ s) = Some v \<longrightarrow> \<not> hasPhonyBase v) \<longrightarrow>
      (\<exists>u. url_parse ext (origin phonyBase @ ''/'' @ s) = Some u \<and>
           URLPath_fromString ext s = Inr u)) \<and>
   (\<forall>v. url_parse ext (origin phonyBase @ s) = Some v \<and> hasPhonyBase v \<longrightarrow>
      URLPath_fromString ext s = Inr v)"
proof -
  have second: "url_parse ext (origin phonyBase @ ''/'' @ s) =
      Some (from_path_state phony_start (remove_tab_newline (strip_trailing s)))"
    using url_parse_phony_slash [of ext s] by (simp add: origin_phonyBase)
  have phony: "hasPhonyBase (from_path_state phony_start t)" for t
    by (simp add: hasPhonyBase_def origin_from_path_state origin_phony_start)
  show ?thesis
  proof (cases "Option.bind (url_parse ext (origin phonyBase @ s))
      (\<lambda>u. if hasPhonyBase u then Some u else None)")
    case None
    then have no: "\<And>v. url_parse ext (origin phonyBase @ s) = Some v \<Longrightarrow> \<not> hasPhonyBase v"
      by (auto simp: bind_eq_None_conv split: if_splits)
    have "URLPath_fromString ext s =
        Inr (from_path_state phony_start (remove_tab_newline (strip_trailing s)))"
      using None second by (simp add: URLPath_fromString_def)
    with second phony no show ?thesis
      using origin_phonyBase by (auto simp: hasPhonyBase_def)
  next
    case (Some u)
    then have u: "url_parse ext (origin phonyBase @ s) = Some u" "hasPhonyBase u"
      by (auto simp: bind_eq_Some_conv split: if_splits)
    have "URLPath_fromString ext s = Inr u"
      using Some by (simp add: URLPath_fromString_def)
    with u show ?thesis
      using origin_phonyBase by (auto simp: hasPhonyBase_def)
  qed
qed

text \<open>
  \<open>fromString("https://samhh.com/foo#bar")\<close>: the first resolution has the host
  \<open>urlpath.fp-ts-std.samhh.comhttps\<close>, so the string is read as a pathname.
\<close>

theorem C2_fromString_total_witness:
  "URLPath_fromString (\<lambda>_. None) ''https://samhh.com/foo#bar'' =
     Inr \<lparr>scheme = ''https'', username = [], password = [],
          host = Some ''urlpath.fp-ts-std.samhh.com'', port = None,
          path = Segments [''https:'', [], ''samhh.com'', ''foo''],
          query = None, fragment = Some ''bar''\<rparr>"
proof -
  have first: "url_parse (\<lambda>_. None) (origin phonyBase @ ''https://samhh.com/foo#bar'') =
     Some \<lparr>scheme = ''https'', username = [], password = [],
          host = Some ''urlpath.fp-ts-std.samhh.comhttps'', port = None,
          path = Segments [[], ''samhh.com'', ''foo''], query = None, fragment = Some ''bar''\<rparr>"
    by (simp add: origin_phonyBase) (simp add: parse_defs char_class_defs Let_def)
  have second: "url_parse (\<lambda>_. None) (origin phonyBase @ ''/'' @ ''https://samhh.com/foo#bar'') =
     Some \<lparr>scheme = ''https'', username = [], password = [],
          host = Some ''urlpath.fp-ts-std.samhh.com'', port = None,
          path = Segments [''https:'', [], ''samhh.com'', ''foo''],
          query = None, fragment = Some ''bar''\<rparr>"
    by (simp add: origin_phonyBase) (simp add: parse_defs char_class_defs Let_def)
  show ?thesis
    using C2_fromString_total [of "\<lambda>_. None" "''https://samhh.com/foo#bar''"]
    unfolding first second
    by (simp add: hasPhonyBase_def origin_def phonyBase_def)
qed

text \<open>
  C1, as the claim states it, fails: \<open>fromString("/foo?")\<close> is a \<open>URLPath\<close> whose query is
  present and empty; \<open>toString\<close> of it is \<open>/foo\<close>, because the \<open>search\<close> getter of an empty
  query is the empty string; and \<open>fromString("/foo")\<close> has no query. The two values have
  the serialized forms \<open>https://urlpath.fp-ts-std.samhh.com/foo\<close> and
  \<open>https://urlpath.fp-ts-std.samhh.com/foo?\<close>, which the equality instance tells apart.
\<close>

theorem C1_roundtrip_counterexample:
  "URLPath_fromString (\<lambda>_. None) ''/foo?'' =
     Inr \<lparr>scheme = ''https'', username = [], password = [],
          host = Some ''urlpath.fp-ts-std.samhh.com'', port = None, path = Segments [''foo''],
          query = Some [], fragment = None\<rparr> \<and>
   URLPath_toString \<lparr>scheme = ''https'', username = [], password = [],
          host = Some ''urlpath.fp-ts-std.samhh.com'', port = None, path = Segments [''foo''],
          query = Some [], fragment = None\<rparr> = ''/foo'' \<and>
   URLPath_fromString (\<lambda>_. None) ''/foo'' =
     Inr \<lparr>scheme = ''https'', username = [], password = [],
          host = Some ''urlpath.fp-ts-std.samhh.com'', port = None, path = Segments [''foo''],
          query = None, fragment = None\<rparr> \<and>
   \<not> URLPath_Eq
     \<lparr>scheme = ''https'', username = [], password = [],
          host = Some ''urlpath.fp-ts-std.samhh.com'', port = None, path = Segments [''foo''],
          query = None, fragment = None\<rparr>
     \<lparr>scheme = ''https'', username = [], password = [],
          host = Some ''urlpath.fp-ts-std.samhh.com'', port = None, path = Segments [''foo''],
          query = Some [], fragment = None\<rparr>"
proof -
  have a: "URLPath_fromString (\<lambda>_. None) ''/foo?'' =
     Inr \<lparr>scheme = ''https'', username = [], password = [],
          host = Some ''urlpath.fp-ts-std.samhh.com'', port = None, path = Segments [''foo''],
          query = Some [], fragment = None\<rparr>"
    unfolding fromString_slash by (simp add: parse_defs char_class_defs Let_def)
  have b: "URLPath_fromString (\<lambda>_. None) ''/foo'' =
     Inr \<lparr>scheme = ''https'', username = [], password = [],
          host = Some ''urlpath.fp-ts-std.samhh.com'', port = None, path = Segments [''foo''],
          query = None, fragment = None\<rparr>"
    unfolding fromString_slash by (simp add: parse_defs char_class_defs Let_def)
  show ?thesis
    unfolding a b
    by (simp add: URLPath_toString_def pathname_def serialize_path_def search_def hash_def
        URLPath_Eq_def URL_Eq_def href_def)
qed

text \<open>
  C1, amended. For every \<open>URLPath\<close> value \<open>x\<close> without credentials whose query and
  fragment are each absent or non-empty, \<open>toString(x)\<close> is the pathname, then \<open>?\<close> and the
  query when there is one, then \<open>#\<close> and the fragment when there is one, and
  \<open>fromString(toString(x))\<close> is \<open>x\<close> itself, so equal to \<open>x\<close> under the equality instance.
  The values of \<open>URLPath\<close> are the records that satisfy \<open>urlpath_invariant\<close>: every
  result of \<open>fromString\<close>, \<open>fromPathname\<close> and \<open>fromURL\<close> is one, and the setters keep
  it (\<open>fromString_invariant\<close>, \<open>fromPathname_invariant\<close>, \<open>ensurePhonyBase_invariant\<close>,
  \<open>setPathname_invariant\<close>, \<open>setParams_invariant\<close>, \<open>setHash_invariant\<close>).
\<close>

theorem C1_roundtrip:
  assumes inv: "urlpath_invariant x"
    and cred: "username x = []" "password x = []"
    and nonempty: "query x \<noteq> Some []" "fragment x \<noteq> Some []"
  shows "URLPath_toString x =
      pathname x @ (case query x of None \<Rightarrow> [] | Some q \<Rightarrow> CHR ''?'' # q) @
        (case fragment x of None \<Rightarrow> [] | Some f \<Rightarrow> CHR ''#'' # f) \<and>
    URLPath_fromString ext (URLPath_toString x) = Inr x \<and>
    (\<exists>y. URLPath_fromString ext (URLPath_toString x) = Inr y \<and> URLPath_Eq y x)"
proof -
  from inv obtain seg segs where path: "path x = Segments (seg # segs)"
    and segs: "list_all wf_segment (seg # segs)"
    by (cases "path x") (auto simp: urlpath_invariant_def neq_Nil_conv)
  from inv nonempty have q: "case query x of None \<Rightarrow> True | Some a \<Rightarrow> wf_query a \<and> a \<noteq> []"
    and f: "case fragment x of None \<Rightarrow> True | Some a \<Rightarrow> wf_fragment a \<and> a \<noteq> []"
    by (auto simp: urlpath_invariant_def split: option.splits)
  let ?rest = "(seg @ concat (map ((#) CHR ''/'') segs)) @ search_of (query x) @ hash_of (fragment x)"
  have clean: "list_all (\<lambda>c. \<not> is_c0_or_space c) ?rest"
  proof -
    have "list_all (\<lambda>c. \<not> is_c0_or_space c) (seg @ concat (map ((#) CHR ''/'') segs))"
      using path_chars [OF segs] by (simp add: list_all_iff)
    moreover have "list_all (\<lambda>c. \<not> is_c0_or_space c) (search_of (query x))"
      using q by (intro search_of_clean) (auto split: option.splits)
    moreover have "list_all (\<lambda>c. \<not> is_c0_or_space c) (hash_of (fragment x))"
      using f by (intro hash_of_clean) (auto split: option.splits)
    ultimately show ?thesis
      by simp
  qed
  have "origin phonyBase @ URLPath_toString x = ''https://urlpath.fp-ts-std.samhh.com/'' @ ?rest"
    by (simp add: origin_phonyBase toString_shape [OF path])
  then have "url_parse ext (origin phonyBase @ URLPath_toString x) =
      Some (from_path_state phony_start ?rest)"
    by (simp only: url_parse_phony_slash strip_trailing_id [OF clean]
        remove_tab_newline_id [OF clean])
  also have "from_path_state phony_start ?rest =
      phony_start\<lparr>path := Segments (seg # segs), query := query x, fragment := fragment x\<rparr>"
    using segs q f by (rule from_path_state_read_back)
  also have "\<dots> = x"
    using inv cred path by (simp add: phony_start_def blank_url_def urlpath_invariant_def)
  finally have parse: "url_parse ext (origin phonyBase @ URLPath_toString x) = Some x" .
  have "hasPhonyBase x"
    using inv by (simp add: hasPhonyBase_def origin_def phonyBase_def urlpath_invariant_def)
  with parse have again: "URLPath_fromString ext (URLPath_toString x) = Inr x"
    by (simp add: URLPath_fromString_def)
  have shape: "URLPath_toString x =
      pathname x @ (case query x of None \<Rightarrow> [] | Some q \<Rightarrow> CHR ''?'' # q) @
        (case fragment x of None \<Rightarrow> [] | Some f \<Rightarrow> CHR ''#'' # f)"
    using nonempty by (simp add: URLPath_toString_def search_def hash_def split: option.splits)
  have "URLPath_Eq x x"
    by (simp add: URLPath_Eq_def URL_Eq_def)
  with again shape show ?thesis
    by simp
qed

theorem C1_roundtrip_witness:
  "URLPath_toString \<lparr>scheme = ''https'', username = [], password = [],
          host = Some ''urlpath.fp-ts-std.samhh.com'', port = None, path = Segments [''foo'', ''b.c''],
          query = Some ''bar=yes'', fragment = Some ''baz''\<rparr> = ''/foo/b.c?bar=yes#baz'' \<and>
   URLPath_fromString (\<lambda>_. None) ''/foo/b.c?bar=yes#baz'' =
     Inr \<lparr>scheme = ''https'', username = [], password = [],
          host = Some ''urlpath.fp-ts-std.samhh.com'', port = None, path = Segments [''foo'', ''b.c''],
          query = Some ''bar=yes'', fragment = Some ''baz''\<rparr>"
proof -
  let ?x = "\<lparr>scheme = ''https'', username = [], password = [],
          host = Some ''urlpath.fp-ts-std.samhh.com'', port = None, path = Segments [''foo'', ''b.c''],
          query = Some ''bar=yes'', fragment = Some ''baz''\<rparr>"
  have inv: "urlpath_invariant ?x"
    by (simp add: wf_defs path_set_def query_set_def special_query_set_def fragment_set_def
        c0_control_set_def single_dot_def double_dot_def lower_char_def is_upper_def)
  have s: "URLPath_toString ?x = ''/foo/b.c?bar=yes#baz''"
    by (simp add: URLPath_toString_def pathname_def serialize_path_def search_def hash_def)
  show ?thesis
    using C1_roundtrip [OF inv, of "\<lambda>_. None"] s by simp
qed

text \<open>
  C7. For all strings \<open>x\<close> and \<open>y\<close>, \<open>setPathname(y)(fromPathname(x))\<close> is
  \<open>fromPathname(y)\<close>, the same value and so equal under the equality instance; its query
  and its fragment are absent, as in \<open>fromPathname(y)\<close>.
\<close>

theorem C7_setPathname_overwrites:
  "setPathname y (fromPathname x) = fromPathname y \<and>
   URLPath_Eq (setPathname y (fromPathname x)) (fromPathname y) \<and>
   query (setPathname y (fromPathname x)) = None \<and>
   fragment (setPathname y (fromPathname x)) = None"
proof -
  have "setPathname y (fromPathname x) = fromPathname y"
    by (simp add: setPathname_def URL_setPathname_def fromPathname_def clone_def set_pathname_def
        phonyBase_def is_special_def Let_def)
  then show ?thesis
    by (simp add: URLPath_Eq_def URL_Eq_def fromPathname_def clone_def set_pathname_keeps
        phonyBase_def)
qed

theorem C7_setPathname_overwrites_witness:
  "setPathname ''/bar'' (fromPathname ''foo'') = fromPathname ''/bar'' \<and>
   getPathname (fromPathname ''foo'') = ''/foo'' \<and>
   getPathname (setPathname ''/bar'' (fromPathname ''foo'')) = ''/bar''"
proof -
  have "getPathname (fromPathname ''foo'') = ''/foo''" "getPathname (fromPathname ''/bar'') = ''/bar''"
    by (simp_all add: getPathname_def URL_getPathname_def pathname_def serialize_path_def
        fromPathname_def clone_def set_pathname_def phonyBase_def parse_defs char_class_defs Let_def)
  then show ?thesis
    using C7_setPathname_overwrites [of "''/bar''" "''foo''"] by simp
qed

text \<open>
  C4, as the claim states it, fails on a base with an opaque path: the platform's pathname
  setter leaves such a URL as it is. \<open>toURL(identity)("mailto:a")(fromPathname("/foo"))\<close>
  is the URL \<open>mailto:a\<close>, with the pathname \<open>a\<close> and not \<open>/foo\<close>.
\<close>

theorem C4_toURL_opaque_counterexample:
  "toURL (\<lambda>_. None) id ''mailto:a'' (fromPathname ''/foo'') =
     Inr \<lparr>scheme = ''mailto'', username = [], password = [], host = None, port = None,
          path = Opaque ''a'', query = None, fragment = None\<rparr> \<and>
   getPathname (fromPathname ''/foo'') = ''/foo'' \<and>
   pathname \<lparr>scheme = ''mailto'', username = [], password = [], host = None, port = None,
          path = Opaque ''a'', query = None, fragment = None\<rparr> = ''a''"
proof -
  have "url_parse (\<lambda>_. None) ''mailto:a'' =
      Some \<lparr>scheme = ''mailto'', username = [], password = [], host = None, port = None,
          path = Opaque ''a'', query = None, fragment = None\<rparr>"
    by (simp add: parse_defs char_class_defs Let_def)
  then show ?thesis
    by (simp add: toURL_def URL_parse_def fromPathname_foo URL_setHash_def URL_setParams_def
        URL_setPathname_def clone_def getHash_def getParams_def getPathname_def URL_getHash_def
        URL_getParams_def URL_getPathname_def set_pathname_def set_search_def set_hash_def
        hash_def searchParams_def pathname_def serialize_path_def Params_toString_def)
qed

text \<open>
  C4, amended. \<open>toURL(onError)(base)(x)\<close> never throws. When \<open>base\<close> does not parse as
  an absolute URL, as \<open>samhh.com\<close>, it is the failure holding \<open>onError\<close> of the parse
  error. When \<open>base\<close> parses to \<open>u\<close>, it is a success holding a URL with the scheme,
  credentials, host and port of \<open>u\<close>, whose query parameters are the parameters of \<open>x\<close>
  and whose fragment is the fragment of \<open>x\<close>; its pathname is the pathname of \<open>x\<close> when
  the path of \<open>u\<close> is a list of segments and the scheme of \<open>u\<close> is not \<open>file\<close>, and its
  path is the path of \<open>u\<close> when that is opaque.
\<close>

theorem C4_toURL:
  "(url_parse ext baseUrl = None \<longrightarrow> toURL ext f baseUrl x = Inl (f TypeError)) \<and>
   (\<forall>u. url_parse ext baseUrl = Some u \<longrightarrow>
      (\<exists>r. toURL ext f baseUrl x = Inr r \<and>
           scheme r = scheme u \<and> username r = username u \<and> password r = password u \<and>
           host r = host u \<and> port r = port u \<and>
           searchParams r = getParams x \<and>
           (urlpath_invariant x \<longrightarrow> hash r = getHash x) \<and>
           ((\<exists>p. path u = Opaque p) \<longrightarrow> path r = path u) \<and>
           (urlpath_invariant x \<and> (\<exists>p. path u = Segments p) \<and> scheme u \<noteq> ''file'' \<longrightarrow>
              pathname r = getPathname x))) \<and>
   toURL ext f ''samhh.com'' x = Inl (f TypeError)"
proof (intro conjI allI impI)
  assume "url_parse ext baseUrl = None"
  then show "toURL ext f baseUrl x = Inl (f TypeError)"
    by (simp add: toURL_def URL_parse_def)
next
  fix u
  assume u: "url_parse ext baseUrl = Some u"
  define r where "r = set_hash (hash x) (set_search (Params_toString (searchParams x))
      (set_pathname (pathname x) u))"
  have res: "toURL ext f baseUrl x = Inr r"
    using u
    by (simp add: toURL_def URL_parse_def r_def URL_setHash_def URL_setParams_def
        URL_setPathname_def clone_def getHash_def getParams_def getPathname_def URL_getHash_def
        URL_getParams_def URL_getPathname_def)
  have keeps: "scheme r = scheme u" "username r = username u" "password r = password u"
    "host r = host u" "port r = port u"
    by (simp_all add: r_def set_hash_keeps set_search_keeps set_pathname_keeps)
  have params: "searchParams r = getParams x"
  proof -
    have "searchParams r = searchParams (set_search (Params_toString (searchParams x))
        (set_pathname (pathname x) u))"
      by (simp add: r_def searchParams_def set_hash_keeps)
    then show ?thesis
      by (simp add: searchParams_set_search getParams_def URL_getParams_def)
  qed
  have hash: "hash r = getHash x" if "urlpath_invariant x"
  proof -
    from that have "case fragment x of None \<Rightarrow> True | Some f \<Rightarrow> wf_fragment f"
      by (simp add: urlpath_invariant_def)
    then show ?thesis
      unfolding r_def getHash_def URL_getHash_def by (rule hash_set_hash)
  qed
  have opaque: "path r = path u" if "\<exists>p. path u = Opaque p"
    using that by (auto simp: r_def set_hash_keeps set_search_keeps set_pathname_opaque)
  have pathn: "pathname r = getPathname x"
    if "urlpath_invariant x \<and> (\<exists>p. path u = Segments p) \<and> scheme u \<noteq> ''file''"
  proof -
    from that obtain seg segs where x: "path x = Segments (seg # segs)"
      "list_all wf_segment (seg # segs)"
      by (cases "path x") (auto simp: urlpath_invariant_def neq_Nil_conv)
    from that obtain p where p: "path u = Segments p" "scheme u \<noteq> ''file''"
      by blast
    have "pathname r = pathname (set_pathname (pathname x) u)"
      by (simp add: r_def pathname_def set_hash_keeps set_search_keeps)
    also have "\<dots> = pathname x"
      using x p by (rule pathname_set_pathname)
    finally show ?thesis
      by (simp add: getPathname_def URL_getPathname_def)
  qed
  show "\<exists>r. toURL ext f baseUrl x = Inr r \<and>
           scheme r = scheme u \<and> username r = username u \<and> password r = password u \<and>
           host r = host u \<and> port r = port u \<and>
           searchParams r = getParams x \<and>
           (urlpath_invariant x \<longrightarrow> hash r = getHash x) \<and>
           ((\<exists>p. path u = Opaque p) \<longrightarrow> path r = path u) \<and>
           (urlpath_invariant x \<and> (\<exists>p. path u = Segments p) \<and> scheme u \<noteq> ''file'' \<longrightarrow>
              pathname r = getPathname x)"
    using res keeps params hash opaque pathn by blast
next
  have "url_parse ext ''samhh.com'' = None"
    by (simp add: parse_defs char_class_defs)
  then show "toURL ext f ''samhh.com'' x = Inl (f TypeError)"
    by (simp add: toURL_def URL_parse_def)
qed

theorem C4_toURL_witness:
  "(\<exists>r. toURL (\<lambda>_. None) id ''https://samhh.com'' (fromPathname ''/foo'') = Inr r \<and>
        scheme r = ''https'' \<and> host r = Some ''samhh.com'' \<and> port r = None \<and>
        pathname r = ''/foo'' \<and> searchParams r = [] \<and> hash r = []) \<and>
   toURL (\<lambda>_. None) id ''samhh.com'' (fromPathname ''/foo'') = Inl TypeError"
proof -
  have base: "url_parse (\<lambda>_. None) ''https://samhh.com'' =
      Some \<lparr>scheme = ''https'', username = [], password = [], host = Some ''samhh.com'',
          port = None, path = Segments [[]], query = None, fragment = None\<rparr>"
    by (simp add: parse_defs char_class_defs Let_def)
  have inv: "urlpath_invariant (fromPathname ''/foo'')"
    unfolding fromPathname_foo
    by (simp add: wf_defs path_set_def query_set_def special_query_set_def fragment_set_def
        c0_control_set_def single_dot_def double_dot_def lower_char_def is_upper_def)
  have vals: "getPathname (fromPathname ''/foo'') = ''/foo''"
    "getParams (fromPathname ''/foo'') = []" "getHash (fromPathname ''/foo'') = []"
    unfolding fromPathname_foo
    by (simp_all add: getHash_def getParams_def getPathname_def URL_getHash_def
        URL_getParams_def URL_getPathname_def hash_def searchParams_def pathname_def
        serialize_path_def)
  show ?thesis
    using C4_toURL [of "\<lambda>_. None" "''https://samhh.com''" id "fromPathname ''/foo''"] inv
    unfolding base vals
    by auto
qed

end
